theory Spec2Isabelle
  imports Complex_Main
begin

section \<open>Data model\<close>

text \<open>
  An item of the source list is a Python \<open>int\<close> or the sentinel \<open>None\<close>: \<open>Some n\<close> or
  \<open>None\<close>. Python integers are unbounded (\<open>int\<close>); the timing fields are Python floats,
  read here as reals: the only operations on them are assigning \<open>0.0\<close> and adding a
  sample \<open>(wait_end - wait_start) * 1000\<close>.
\<close>

type_synonym item = "int option"

datatype error = ValueError string

text \<open>The dataclass \<open>Statistics\<close> (the same in both source files).\<close>

record Statistics =
  items_produced :: int
  items_consumed :: int
  producer_wait_time :: real
  consumer_wait_time :: real
  max_queue_size :: int
  start_time :: real
  end_time :: real

definition Statistics_new :: Statistics where
  "Statistics_new =
     \<lparr>items_produced = 0, items_consumed = 0, producer_wait_time = 0,
      consumer_wait_time = 0, max_queue_size = 0, start_time = 0, end_time = 0\<rparr>"

text \<open>
  The data attributes of an object. \<open>ProducerConsumer\<close> (producer_consumer.py) and
  \<open>ProducerConsumerWaitNotify\<close> (producer_consumer_wait_notify.py) have the same ones:
  \<open>shared_queue\<close> (the contents of the \<open>queue.Queue\<close>, respectively the list),
  \<open>source_container\<close>, \<open>destination_container\<close>, \<open>capacity\<close>, \<open>stats\<close> and the flag
  \<open>_producer_finished\<close>, respectively \<open>producer_finished\<close>. The lock objects are part of
  the thread systems below.
\<close>

record ProducerConsumer =
  shared_queue :: "item list"
  source_container :: "item list"
  destination_container :: "item list"
  capacity :: int
  stats :: Statistics
  producer_finished :: bool

section \<open>Sequential operations\<close>

text \<open>\<open>__init__\<close> of both classes: raises for \<open>capacity <= 0\<close>.\<close>

definition init :: "int \<Rightarrow> error + ProducerConsumer" where
  "init cap =
     (if cap \<le> 0 then Inl (ValueError ''Queue capacity must be greater than 0'')
      else Inr \<lparr>shared_queue = [], source_container = [], destination_container = [],
                capacity = cap, stats = Statistics_new, producer_finished = False\<rparr>)"

text \<open>
  A method that mutates the object returns what it raised (\<open>Some e\<close>) or \<open>None\<close>,
  together with the object as the call leaves it.
\<close>

definition initialize_source :: "int \<Rightarrow> ProducerConsumer \<Rightarrow> error option \<times> ProducerConsumer" where
  "initialize_source item_count self =
     (if item_count < 0 then (Some (ValueError ''Item count must be non-negative''), self)
      else (None, self\<lparr>source_container := map Some [1..item_count]\<rparr>))"

text \<open>\<open>initialize_source_custom\<close> (producer_consumer.py only); the argument may be \<open>None\<close>.\<close>

definition initialize_source_custom :: "item list option \<Rightarrow> ProducerConsumer \<Rightarrow> error option \<times> ProducerConsumer" where
  "initialize_source_custom items self =
     (case items of
        None \<Rightarrow> (Some (ValueError ''Items list cannot be None''), self)
      | Some xs \<Rightarrow> (None, self\<lparr>source_container := xs\<rparr>))"

definition reset_statistics :: "ProducerConsumer \<Rightarrow> ProducerConsumer" where
  "reset_statistics self =
     self\<lparr>stats := Statistics_new, producer_finished := False, destination_container := []\<rparr>"

text \<open>The getters return a copy of the list, and the object as they leave it.\<close>

definition get_destination_container :: "ProducerConsumer \<Rightarrow> item list \<times> ProducerConsumer" where
  "get_destination_container self = (destination_container self, self)"

definition get_source_container :: "ProducerConsumer \<Rightarrow> item list \<times> ProducerConsumer" where
  "get_source_container self = (source_container self, self)"

section \<open>Threads\<close>

text \<open>
  A run has two threads. A schedule is a list of events: which thread takes its next
  step, and the reading of \<open>perf_counter()\<close> that step sees if it reads the clock. A step
  is one statement of the source that touches shared state (local computation and
  printing go with it). The step of a thread that is blocked or has returned is \<open>None\<close>.
\<close>

datatype tid = Producer | Consumer

type_synonym event = "tid \<times> real"

subsection \<open>producer_consumer.py: queue.Queue\<close>

text \<open>
  Where the producer stands: at the emptiness test (line 90), at the head of the
  \<open>for\<close> loop with the index of the next item (95), before \<open>put\<close> with \<open>wait_start\<close>
  (103), before the wait-time update (104-105), before \<open>qsize()\<close> (107), before the
  \<open>max\<close> update with \<open>current_size\<close> (108), before the increment (110), returned.
\<close>

datatype q_producer =
    QP_Start
  | QP_Loop nat
  | QP_Put nat real
  | QP_Time nat real
  | QP_Size nat
  | QP_Max nat int
  | QP_Inc nat
  | QP_Done

text \<open>
  Where the consumer stands, with its local \<open>consumed\<close>: at the argument tests
  (131-138), at the \<open>while\<close> test (139-140), before \<open>get\<close> with \<open>wait_start\<close> (142),
  before the wait-time update with the item (143-144), at the sentinel test (147),
  before the append (152-153), before the two increments (155-156), returned.
\<close>

datatype q_consumer =
    QC_Start
  | QC_Loop int
  | QC_Get int real
  | QC_Time int real item
  | QC_Check int item
  | QC_Append int item
  | QC_Count int
  | QC_Done

record q_system =
  q_self :: ProducerConsumer
  q_total_items :: int
  q_prod :: q_producer
  q_cons :: q_consumer

text \<open>
  \<open>queue.Queue(maxsize)\<close> is the standard library's: \<open>put\<close> blocks while
  \<open>maxsize > 0\<close> and the queue holds \<open>maxsize\<close> items or more, \<open>get\<close> blocks while it is
  empty, and each is atomic.
\<close>

definition queue_full :: "ProducerConsumer \<Rightarrow> bool" where
  "queue_full self = (0 < capacity self \<and> capacity self \<le> int (length (shared_queue self)))"

definition q_producer_step :: "real \<Rightarrow> q_system \<Rightarrow> q_system option" where
  "q_producer_step now s =
     (case q_prod s of
        QP_Start \<Rightarrow>
          if source_container (q_self s) = []
          then Some (s\<lparr>q_self := (q_self s)\<lparr>producer_finished := True\<rparr>, q_prod := QP_Done\<rparr>)
          else Some (s\<lparr>q_prod := QP_Loop 0\<rparr>)
      | QP_Loop i \<Rightarrow>
          if i < length (source_container (q_self s))
          then (case source_container (q_self s) ! i of
                  None \<Rightarrow> Some (s\<lparr>q_prod := QP_Loop (Suc i)\<rparr>)
                | Some x \<Rightarrow> Some (s\<lparr>q_prod := QP_Put i now\<rparr>))
          else Some (s\<lparr>q_self := (q_self s)\<lparr>producer_finished := True\<rparr>, q_prod := QP_Done\<rparr>)
      | QP_Put i wait_start \<Rightarrow>
          if queue_full (q_self s) then None
          else Some (s\<lparr>q_self := shared_queue_update
                         (\<lambda>q. q @ [source_container (q_self s) ! i]) (q_self s),
                       q_prod := QP_Time i wait_start\<rparr>)
      | QP_Time i wait_start \<Rightarrow>
          Some (s\<lparr>q_self := stats_update
                     (producer_wait_time_update (\<lambda>w. w + (now - wait_start) * 1000)) (q_self s),
                   q_prod := QP_Size i\<rparr>)
      | QP_Size i \<Rightarrow>
          Some (s\<lparr>q_prod := QP_Max i (int (length (shared_queue (q_self s))))\<rparr>)
      | QP_Max i current_size \<Rightarrow>
          Some (s\<lparr>q_self := stats_update
                     (max_queue_size_update (\<lambda>m. max m current_size)) (q_self s),
                   q_prod := QP_Inc i\<rparr>)
      | QP_Inc i \<Rightarrow>
          Some (s\<lparr>q_self := stats_update (items_produced_update (\<lambda>n. n + 1)) (q_self s),
                   q_prod := QP_Loop (Suc i)\<rparr>)
      | QP_Done \<Rightarrow> None)"

text \<open>
  The \<open>ValueError\<close> for a negative \<open>total_items\<close> is raised inside the \<open>try\<close> and caught
  by the \<open>except\<close> of the same function, which prints it: the consumer returns.
\<close>

definition q_consumer_step :: "real \<Rightarrow> q_system \<Rightarrow> q_system option" where
  "q_consumer_step now s =
     (case q_cons s of
        QC_Start \<Rightarrow>
          if q_total_items s < 0 then Some (s\<lparr>q_cons := QC_Done\<rparr>)
          else if q_total_items s = 0 then Some (s\<lparr>q_cons := QC_Done\<rparr>)
          else Some (s\<lparr>q_cons := QC_Loop 0\<rparr>)
      | QC_Loop consumed \<Rightarrow>
          if consumed < q_total_items s then Some (s\<lparr>q_cons := QC_Get consumed now\<rparr>)
          else Some (s\<lparr>q_cons := QC_Done\<rparr>)
      | QC_Get consumed wait_start \<Rightarrow>
          (case shared_queue (q_self s) of
             [] \<Rightarrow> None
           | x # q \<Rightarrow> Some (s\<lparr>q_self := (q_self s)\<lparr>shared_queue := q\<rparr>,
                             q_cons := QC_Time consumed wait_start x\<rparr>))
      | QC_Time consumed wait_start x \<Rightarrow>
          Some (s\<lparr>q_self := stats_update
                     (consumer_wait_time_update (\<lambda>w. w + (now - wait_start) * 1000)) (q_self s),
                   q_cons := QC_Check consumed x\<rparr>)
      | QC_Check consumed x \<Rightarrow>
          (case x of
             None \<Rightarrow> Some (s\<lparr>q_cons := QC_Loop consumed\<rparr>)
           | Some v \<Rightarrow> Some (s\<lparr>q_cons := QC_Append consumed x\<rparr>))
      | QC_Append consumed x \<Rightarrow>
          Some (s\<lparr>q_self := destination_container_update (\<lambda>d. d @ [x]) (q_self s),
                   q_cons := QC_Count consumed\<rparr>)
      | QC_Count consumed \<Rightarrow>
          Some (s\<lparr>q_self := stats_update (items_consumed_update (\<lambda>n. n + 1)) (q_self s),
                   q_cons := QC_Loop (consumed + 1)\<rparr>)
      | QC_Done \<Rightarrow> None)"

definition q_step :: "event \<Rightarrow> q_system \<Rightarrow> q_system option" where
  "q_step ev s =
     (case fst ev of
        Producer \<Rightarrow> q_producer_step (snd ev) s
      | Consumer \<Rightarrow> q_consumer_step (snd ev) s)"

fun q_exec :: "event list \<Rightarrow> q_system \<Rightarrow> q_system option" where
  "q_exec [] s = Some s"
| "q_exec (ev # evs) s =
     (case q_step ev s of None \<Rightarrow> None | Some s' \<Rightarrow> q_exec evs s')"

definition q_start :: "int \<Rightarrow> ProducerConsumer \<Rightarrow> q_system" where
  "q_start total_items self =
     \<lparr>q_self = self, q_total_items = total_items, q_prod = QP_Start, q_cons = QC_Start\<rparr>"

definition q_finished :: "q_system \<Rightarrow> bool" where
  "q_finished s = (q_prod s = QP_Done \<and> q_cons s = QC_Done)"

text \<open>
  \<open>ProducerConsumer.run\<close> along a schedule. \<open>t0\<close> and \<open>t1\<close> are the clock readings for
  \<open>start_time\<close> and \<open>end_time\<close>. The outcome is the exception raised, or \<open>Returned\<close> when
  the schedule takes both threads to their return (the two \<open>join\<close>s succeed), or
  \<open>NotCompleted\<close> when the schedule is not a complete execution of the two threads.
  The report of \<open>perform_analysis\<close> is console and file output and changes no attribute.
\<close>

datatype outcome = Raised error ProducerConsumer | Returned ProducerConsumer | NotCompleted

definition q_run :: "int \<Rightarrow> real \<Rightarrow> event list \<Rightarrow> real \<Rightarrow> ProducerConsumer \<Rightarrow> outcome" where
  "q_run item_count t0 evs t1 self =
     (case initialize_source item_count self of
        (Some e, self1) \<Rightarrow> Raised e self1
      | (None, self1) \<Rightarrow>
          (case q_exec evs (q_start item_count
                  (stats_update (start_time_update (\<lambda>_. t0)) (reset_statistics self1))) of
             None \<Rightarrow> NotCompleted
           | Some s \<Rightarrow>
               if q_finished s
               then Returned (stats_update (end_time_update (\<lambda>_. t1)) (q_self s))
               else NotCompleted))"

subsection \<open>producer_consumer_wait_notify.py: threading.Condition\<close>

text \<open>
  \<open>threading.Condition\<close> is the standard library's. Its lock has at most one holder;
  \<open>with self.condition\<close> blocks until the lock is free and takes it, and leaving the
  block (also by \<open>break\<close>, \<open>continue\<close> or \<open>return\<close>) releases it. \<open>wait()\<close> releases
  the lock and blocks until another thread calls \<open>notify()\<close>, then takes the lock
  again before it returns. \<open>notify()\<close> wakes one waiting thread and does nothing when
  none waits. With two threads the only thread that can wait while one holds the
  lock is the other one. \<open>dest_lock\<close> is taken by the consumer thread only, inside
  the statement that appends.

  Where the producer stands: at the emptiness test (line 74), at the head of the \<open>for\<close>
  loop (81-85), entering the \<open>with\<close> block (87-88), at the \<open>while\<close> test with
  \<open>wait_start\<close> (90), inside \<open>wait()\<close> before and after the notification (92), before
  the wait-time update (93-94), before the append (97), before the high-water mark
  (98-99), before the increment (100), before \<open>notify()\<close> (105), leaving the block
  (106-107). The two places that set the flag (76-79 for an empty source and 109-111
  after the loop) run the same three statements and return: entering the block,
  setting the flag, \<open>notify()\<close>, leaving the block.
\<close>

datatype wn_producer =
    WP_Start
  | WP_Loop nat
  | WP_Acquire nat
  | WP_Test nat real
  | WP_Waiting nat real
  | WP_Notified nat real
  | WP_Time nat real
  | WP_Append nat
  | WP_Max nat
  | WP_Inc nat
  | WP_Notify nat
  | WP_Release nat
  | WP_FinAcquire
  | WP_FinSet
  | WP_FinNotify
  | WP_FinRelease
  | WP_Done

text \<open>
  Where the consumer stands, with its local \<open>consumed\<close>: at the argument tests
  (130-137), at the outer \<open>while\<close> test (138), entering the \<open>with\<close> block (139-140), at
  the inner \<open>while\<close> test (142), inside \<open>wait()\<close> before and after the notification
  (144), before the wait-time update (145-146), at the test that breaks (149), before
  \<open>pop(0)\<close> (153), at the sentinel test with the item (156), before the two
  increments (160-161), before the append (164-165), before \<open>notify()\<close> (170), leaving
  the block (171-172), returned.
\<close>

datatype wn_consumer =
    WC_Start
  | WC_Loop int
  | WC_Acquire int
  | WC_Test int real
  | WC_Waiting int real
  | WC_Notified int real
  | WC_Time int real
  | WC_Break int
  | WC_Pop int
  | WC_Check int item
  | WC_Count int item
  | WC_Append int item
  | WC_Notify int
  | WC_Release int
  | WC_Done

record wn_system =
  wn_self :: ProducerConsumer
  wn_total_items :: int
  wn_owner :: "tid option"
  wn_prod :: wn_producer
  wn_cons :: wn_consumer

text \<open>\<open>self.condition.notify()\<close> called by the producer, and by the consumer.\<close>

definition notify_consumer :: "wn_system \<Rightarrow> wn_system" where
  "notify_consumer s =
     (case wn_cons s of
        WC_Waiting consumed wait_start \<Rightarrow> s\<lparr>wn_cons := WC_Notified consumed wait_start\<rparr>
      | _ \<Rightarrow> s)"

definition notify_producer :: "wn_system \<Rightarrow> wn_system" where
  "notify_producer s =
     (case wn_prod s of
        WP_Waiting i wait_start \<Rightarrow> s\<lparr>wn_prod := WP_Notified i wait_start\<rparr>
      | _ \<Rightarrow> s)"

definition wn_producer_step :: "real \<Rightarrow> wn_system \<Rightarrow> wn_system option" where
  "wn_producer_step now s =
     (case wn_prod s of
        WP_Start \<Rightarrow>
          if source_container (wn_self s) = [] then Some (s\<lparr>wn_prod := WP_FinAcquire\<rparr>)
          else Some (s\<lparr>wn_prod := WP_Loop 0\<rparr>)
      | WP_Loop i \<Rightarrow>
          if i < length (source_container (wn_self s))
          then (case source_container (wn_self s) ! i of
                  None \<Rightarrow> Some (s\<lparr>wn_prod := WP_Loop (Suc i)\<rparr>)
                | Some x \<Rightarrow> Some (s\<lparr>wn_prod := WP_Acquire i\<rparr>))
          else Some (s\<lparr>wn_prod := WP_FinAcquire\<rparr>)
      | WP_Acquire i \<Rightarrow>
          if wn_owner s = None
          then Some (s\<lparr>wn_owner := Some Producer, wn_prod := WP_Test i now\<rparr>)
          else None
      | WP_Test i wait_start \<Rightarrow>
          if int (length (shared_queue (wn_self s))) = capacity (wn_self s)
          then Some (s\<lparr>wn_owner := None, wn_prod := WP_Waiting i wait_start\<rparr>)
          else Some (s\<lparr>wn_prod := WP_Time i wait_start\<rparr>)
      | WP_Waiting i wait_start \<Rightarrow> None
      | WP_Notified i wait_start \<Rightarrow>
          if wn_owner s = None
          then Some (s\<lparr>wn_owner := Some Producer, wn_prod := WP_Test i wait_start\<rparr>)
          else None
      | WP_Time i wait_start \<Rightarrow>
          Some (s\<lparr>wn_self := stats_update
                     (producer_wait_time_update (\<lambda>w. w + (now - wait_start) * 1000)) (wn_self s),
                   wn_prod := WP_Append i\<rparr>)
      | WP_Append i \<Rightarrow>
          Some (s\<lparr>wn_self := shared_queue_update
                     (\<lambda>q. q @ [source_container (wn_self s) ! i]) (wn_self s),
                   wn_prod := WP_Max i\<rparr>)
      | WP_Max i \<Rightarrow>
          Some (s\<lparr>wn_self := stats_update
                     (max_queue_size_update
                        (\<lambda>m. max m (int (length (shared_queue (wn_self s)))))) (wn_self s),
                   wn_prod := WP_Inc i\<rparr>)
      | WP_Inc i \<Rightarrow>
          Some (s\<lparr>wn_self := stats_update (items_produced_update (\<lambda>n. n + 1)) (wn_self s),
                   wn_prod := WP_Notify i\<rparr>)
      | WP_Notify i \<Rightarrow> Some ((notify_consumer s)\<lparr>wn_prod := WP_Release i\<rparr>)
      | WP_Release i \<Rightarrow> Some (s\<lparr>wn_owner := None, wn_prod := WP_Loop (Suc i)\<rparr>)
      | WP_FinAcquire \<Rightarrow>
          if wn_owner s = None
          then Some (s\<lparr>wn_owner := Some Producer, wn_prod := WP_FinSet\<rparr>)
          else None
      | WP_FinSet \<Rightarrow>
          Some (s\<lparr>wn_self := (wn_self s)\<lparr>producer_finished := True\<rparr>,
                   wn_prod := WP_FinNotify\<rparr>)
      | WP_FinNotify \<Rightarrow> Some ((notify_consumer s)\<lparr>wn_prod := WP_FinRelease\<rparr>)
      | WP_FinRelease \<Rightarrow> Some (s\<lparr>wn_owner := None, wn_prod := WP_Done\<rparr>)
      | WP_Done \<Rightarrow> None)"

text \<open>
  \<open>pop(0)\<close> on an empty list raises \<open>IndexError\<close>, which the \<open>except\<close> of the consumer
  catches after the \<open>with\<close> block has released the lock: the consumer returns.
\<close>

definition wn_consumer_step :: "real \<Rightarrow> wn_system \<Rightarrow> wn_system option" where
  "wn_consumer_step now s =
     (case wn_cons s of
        WC_Start \<Rightarrow>
          if wn_total_items s < 0 then Some (s\<lparr>wn_cons := WC_Done\<rparr>)
          else if wn_total_items s = 0 then Some (s\<lparr>wn_cons := WC_Done\<rparr>)
          else Some (s\<lparr>wn_cons := WC_Loop 0\<rparr>)
      | WC_Loop consumed \<Rightarrow>
          if consumed < wn_total_items s then Some (s\<lparr>wn_cons := WC_Acquire consumed\<rparr>)
          else Some (s\<lparr>wn_cons := WC_Done\<rparr>)
      | WC_Acquire consumed \<Rightarrow>
          if wn_owner s = None
          then Some (s\<lparr>wn_owner := Some Consumer, wn_cons := WC_Test consumed now\<rparr>)
          else None
      | WC_Test consumed wait_start \<Rightarrow>
          if shared_queue (wn_self s) = [] \<and> \<not> producer_finished (wn_self s)
          then Some (s\<lparr>wn_owner := None, wn_cons := WC_Waiting consumed wait_start\<rparr>)
          else Some (s\<lparr>wn_cons := WC_Time consumed wait_start\<rparr>)
      | WC_Waiting consumed wait_start \<Rightarrow> None
      | WC_Notified consumed wait_start \<Rightarrow>
          if wn_owner s = None
          then Some (s\<lparr>wn_owner := Some Consumer, wn_cons := WC_Test consumed wait_start\<rparr>)
          else None
      | WC_Time consumed wait_start \<Rightarrow>
          Some (s\<lparr>wn_self := stats_update
                     (consumer_wait_time_update (\<lambda>w. w + (now - wait_start) * 1000)) (wn_self s),
                   wn_cons := WC_Break consumed\<rparr>)
      | WC_Break consumed \<Rightarrow>
          if shared_queue (wn_self s) = [] \<and> producer_finished (wn_self s)
          then Some (s\<lparr>wn_owner := None, wn_cons := WC_Done\<rparr>)
          else Some (s\<lparr>wn_cons := WC_Pop consumed\<rparr>)
      | WC_Pop consumed \<Rightarrow>
          (case shared_queue (wn_self s) of
             [] \<Rightarrow> Some (s\<lparr>wn_owner := None, wn_cons := WC_Done\<rparr>)
           | x # q \<Rightarrow> Some (s\<lparr>wn_self := (wn_self s)\<lparr>shared_queue := q\<rparr>,
                             wn_cons := WC_Check consumed x\<rparr>))
      | WC_Check consumed x \<Rightarrow>
          (case x of
             None \<Rightarrow> Some (s\<lparr>wn_owner := None, wn_cons := WC_Loop consumed\<rparr>)
           | Some v \<Rightarrow> Some (s\<lparr>wn_cons := WC_Count consumed x\<rparr>))
      | WC_Count consumed x \<Rightarrow>
          Some (s\<lparr>wn_self := stats_update (items_consumed_update (\<lambda>n. n + 1)) (wn_self s),
                   wn_cons := WC_Append (consumed + 1) x\<rparr>)
      | WC_Append consumed x \<Rightarrow>
          Some (s\<lparr>wn_self := destination_container_update (\<lambda>d. d @ [x]) (wn_self s),
                   wn_cons := WC_Notify consumed\<rparr>)
      | WC_Notify consumed \<Rightarrow> Some ((notify_producer s)\<lparr>wn_cons := WC_Release consumed\<rparr>)
      | WC_Release consumed \<Rightarrow> Some (s\<lparr>wn_owner := None, wn_cons := WC_Loop consumed\<rparr>)
      | WC_Done \<Rightarrow> None)"

definition wn_step :: "event \<Rightarrow> wn_system \<Rightarrow> wn_system option" where
  "wn_step ev s =
     (case fst ev of
        Producer \<Rightarrow> wn_producer_step (snd ev) s
      | Consumer \<Rightarrow> wn_consumer_step (snd ev) s)"

fun wn_exec :: "event list \<Rightarrow> wn_system \<Rightarrow> wn_system option" where
  "wn_exec [] s = Some s"
| "wn_exec (ev # evs) s =
     (case wn_step ev s of None \<Rightarrow> None | Some s' \<Rightarrow> wn_exec evs s')"

definition wn_start :: "int \<Rightarrow> ProducerConsumer \<Rightarrow> wn_system" where
  "wn_start total_items self =
     \<lparr>wn_self = self, wn_total_items = total_items, wn_owner = None,
      wn_prod = WP_Start, wn_cons = WC_Start\<rparr>"

definition wn_finished :: "wn_system \<Rightarrow> bool" where
  "wn_finished s = (wn_prod s = WP_Done \<and> wn_cons s = WC_Done)"

text \<open>\<open>ProducerConsumerWaitNotify.run\<close> along a schedule, as \<open>q_run\<close>.\<close>

definition wn_run :: "int \<Rightarrow> real \<Rightarrow> event list \<Rightarrow> real \<Rightarrow> ProducerConsumer \<Rightarrow> outcome" where
  "wn_run item_count t0 evs t1 self =
     (case initialize_source item_count self of
        (Some e, self1) \<Rightarrow> Raised e self1
      | (None, self1) \<Rightarrow>
          (case wn_exec evs (wn_start item_count
                  (stats_update (start_time_update (\<lambda>_. t0)) (reset_statistics self1))) of
             None \<Rightarrow> NotCompleted
           | Some s \<Rightarrow>
               if wn_finished s
               then Returned (stats_update (end_time_update (\<lambda>_. t1)) (wn_self s))
               else NotCompleted))"

section \<open>Invariants of the thread systems\<close>

text \<open>The items of a list that are not the sentinel, in order.\<close>

definition nonsentinel :: "item list \<Rightarrow> item list" where
  "nonsentinel xs = filter (\<lambda>x. x \<noteq> None) xs"

subsection \<open>Queue implementation\<close>

text \<open>
  For the place of the producer: how many source items it is past the \<open>put\<close> of
  (\<open>qp_put\<close>), how many it has counted in \<open>items_produced\<close> (\<open>qp_counted\<close>), and what holds
  of its index and of \<open>current_size\<close> (\<open>qp_ok\<close>). For the place of the consumer: the
  item it holds between \<open>get\<close> and the append (\<open>qc_inflight\<close>), whether it has appended an
  item it has not counted yet (\<open>qc_lag\<close>), and what holds of its local \<open>consumed\<close>, given
  the target \<open>t\<close> and \<open>items_consumed\<close> \<open>k\<close> (\<open>qc_ok\<close>).
\<close>

fun qp_put :: "nat \<Rightarrow> q_producer \<Rightarrow> nat" where
  "qp_put n QP_Start = 0"
| "qp_put n (QP_Loop i) = i"
| "qp_put n (QP_Put i w) = i"
| "qp_put n (QP_Time i w) = Suc i"
| "qp_put n (QP_Size i) = Suc i"
| "qp_put n (QP_Max i c) = Suc i"
| "qp_put n (QP_Inc i) = Suc i"
| "qp_put n QP_Done = n"

fun qp_counted :: "nat \<Rightarrow> q_producer \<Rightarrow> nat" where
  "qp_counted n QP_Start = 0"
| "qp_counted n (QP_Loop i) = i"
| "qp_counted n (QP_Put i w) = i"
| "qp_counted n (QP_Time i w) = i"
| "qp_counted n (QP_Size i) = i"
| "qp_counted n (QP_Max i c) = i"
| "qp_counted n (QP_Inc i) = i"
| "qp_counted n QP_Done = n"

fun qp_ok :: "item list \<Rightarrow> int \<Rightarrow> q_producer \<Rightarrow> bool" where
  "qp_ok src cap QP_Start = True"
| "qp_ok src cap (QP_Loop i) = (i \<le> length src)"
| "qp_ok src cap (QP_Put i w) = (i < length src \<and> src ! i \<noteq> None)"
| "qp_ok src cap (QP_Time i w) = (i < length src \<and> src ! i \<noteq> None)"
| "qp_ok src cap (QP_Size i) = (i < length src \<and> src ! i \<noteq> None)"
| "qp_ok src cap (QP_Max i c) = (i < length src \<and> src ! i \<noteq> None \<and> c \<le> cap)"
| "qp_ok src cap (QP_Inc i) = (i < length src \<and> src ! i \<noteq> None)"
| "qp_ok src cap QP_Done = True"

fun qc_inflight :: "q_consumer \<Rightarrow> item list" where
  "qc_inflight (QC_Time c w x) = [x]"
| "qc_inflight (QC_Check c x) = [x]"
| "qc_inflight (QC_Append c x) = [x]"
| "qc_inflight _ = []"

fun qc_lag :: "q_consumer \<Rightarrow> int" where
  "qc_lag (QC_Count c) = 1"
| "qc_lag _ = 0"

fun qc_ok :: "int \<Rightarrow> int \<Rightarrow> q_consumer \<Rightarrow> bool" where
  "qc_ok t k QC_Start = (k = 0)"
| "qc_ok t k (QC_Loop c) = (c = k \<and> c \<le> t)"
| "qc_ok t k (QC_Get c w) = (c = k \<and> c < t)"
| "qc_ok t k (QC_Time c w x) = (c = k \<and> c < t)"
| "qc_ok t k (QC_Check c x) = (c = k \<and> c < t)"
| "qc_ok t k (QC_Append c x) = (c = k \<and> c < t)"
| "qc_ok t k (QC_Count c) = (c = k \<and> c < t)"
| "qc_ok t k QC_Done = (t \<le> k)"

definition q_inv :: "q_system \<Rightarrow> bool" where
  "q_inv s =
     (0 < capacity (q_self s)
      \<and> qp_ok (source_container (q_self s)) (capacity (q_self s)) (q_prod s)
      \<and> destination_container (q_self s) @ qc_inflight (q_cons s) @ shared_queue (q_self s) =
          nonsentinel (take (qp_put (length (source_container (q_self s))) (q_prod s))
                         (source_container (q_self s)))
      \<and> items_produced (stats (q_self s)) =
          int (length (nonsentinel (take (qp_counted (length (source_container (q_self s))) (q_prod s))
                         (source_container (q_self s)))))
      \<and> items_consumed (stats (q_self s)) =
          int (length (destination_container (q_self s))) - qc_lag (q_cons s)
      \<and> qc_ok (q_total_items s) (items_consumed (stats (q_self s))) (q_cons s)
      \<and> int (length (shared_queue (q_self s))) \<le> capacity (q_self s)
      \<and> max_queue_size (stats (q_self s)) \<le> capacity (q_self s))"

subsection \<open>Wait/notify implementation\<close>

text \<open>
  \<open>wp_holds\<close> and \<open>wc_holds\<close>: the places inside a \<open>with self.condition\<close> block, not
  inside \<open>wait()\<close>. \<open>wp_put\<close>, \<open>wp_counted\<close>, \<open>wc_inflight\<close> are as for the queue; the
  consumer counts an item before it appends it (\<open>wc_lead\<close>). \<open>wp_ok\<close> and \<open>wc_ok\<close> take the
  capacity, the length of the shared list and the flag as well.
\<close>

fun wp_holds :: "wn_producer \<Rightarrow> bool" where
  "wp_holds (WP_Test i w) = True"
| "wp_holds (WP_Time i w) = True"
| "wp_holds (WP_Append i) = True"
| "wp_holds (WP_Max i) = True"
| "wp_holds (WP_Inc i) = True"
| "wp_holds (WP_Notify i) = True"
| "wp_holds (WP_Release i) = True"
| "wp_holds WP_FinSet = True"
| "wp_holds WP_FinNotify = True"
| "wp_holds WP_FinRelease = True"
| "wp_holds _ = False"

fun wc_holds :: "wn_consumer \<Rightarrow> bool" where
  "wc_holds (WC_Test c w) = True"
| "wc_holds (WC_Time c w) = True"
| "wc_holds (WC_Break c) = True"
| "wc_holds (WC_Pop c) = True"
| "wc_holds (WC_Check c x) = True"
| "wc_holds (WC_Count c x) = True"
| "wc_holds (WC_Append c x) = True"
| "wc_holds (WC_Notify c) = True"
| "wc_holds (WC_Release c) = True"
| "wc_holds _ = False"

fun wp_put :: "nat \<Rightarrow> wn_producer \<Rightarrow> nat" where
  "wp_put n WP_Start = 0"
| "wp_put n (WP_Loop i) = i"
| "wp_put n (WP_Acquire i) = i"
| "wp_put n (WP_Test i w) = i"
| "wp_put n (WP_Waiting i w) = i"
| "wp_put n (WP_Notified i w) = i"
| "wp_put n (WP_Time i w) = i"
| "wp_put n (WP_Append i) = i"
| "wp_put n (WP_Max i) = Suc i"
| "wp_put n (WP_Inc i) = Suc i"
| "wp_put n (WP_Notify i) = Suc i"
| "wp_put n (WP_Release i) = Suc i"
| "wp_put n _ = n"

fun wp_counted :: "nat \<Rightarrow> wn_producer \<Rightarrow> nat" where
  "wp_counted n WP_Start = 0"
| "wp_counted n (WP_Loop i) = i"
| "wp_counted n (WP_Acquire i) = i"
| "wp_counted n (WP_Test i w) = i"
| "wp_counted n (WP_Waiting i w) = i"
| "wp_counted n (WP_Notified i w) = i"
| "wp_counted n (WP_Time i w) = i"
| "wp_counted n (WP_Append i) = i"
| "wp_counted n (WP_Max i) = i"
| "wp_counted n (WP_Inc i) = i"
| "wp_counted n (WP_Notify i) = Suc i"
| "wp_counted n (WP_Release i) = Suc i"
| "wp_counted n _ = n"

fun wp_ok :: "item list \<Rightarrow> int \<Rightarrow> nat \<Rightarrow> bool \<Rightarrow> wn_producer \<Rightarrow> bool" where
  "wp_ok src cap qlen fin WP_Start = (\<not> fin)"
| "wp_ok src cap qlen fin (WP_Loop i) = (i \<le> length src \<and> \<not> fin)"
| "wp_ok src cap qlen fin (WP_Acquire i) = (i < length src \<and> src ! i \<noteq> None \<and> \<not> fin)"
| "wp_ok src cap qlen fin (WP_Test i w) = (i < length src \<and> src ! i \<noteq> None \<and> \<not> fin)"
| "wp_ok src cap qlen fin (WP_Waiting i w) = (i < length src \<and> src ! i \<noteq> None \<and> \<not> fin)"
| "wp_ok src cap qlen fin (WP_Notified i w) = (i < length src \<and> src ! i \<noteq> None \<and> \<not> fin)"
| "wp_ok src cap qlen fin (WP_Time i w) =
     (i < length src \<and> src ! i \<noteq> None \<and> \<not> fin \<and> int qlen < cap)"
| "wp_ok src cap qlen fin (WP_Append i) =
     (i < length src \<and> src ! i \<noteq> None \<and> \<not> fin \<and> int qlen < cap)"
| "wp_ok src cap qlen fin (WP_Max i) = (i < length src \<and> src ! i \<noteq> None \<and> \<not> fin \<and> 0 < qlen)"
| "wp_ok src cap qlen fin (WP_Inc i) = (i < length src \<and> src ! i \<noteq> None \<and> \<not> fin \<and> 0 < qlen)"
| "wp_ok src cap qlen fin (WP_Notify i) = (i < length src \<and> src ! i \<noteq> None \<and> \<not> fin)"
| "wp_ok src cap qlen fin (WP_Release i) = (i < length src \<and> src ! i \<noteq> None \<and> \<not> fin)"
| "wp_ok src cap qlen fin WP_FinAcquire = (\<not> fin)"
| "wp_ok src cap qlen fin WP_FinSet = (\<not> fin)"
| "wp_ok src cap qlen fin WP_FinNotify = fin"
| "wp_ok src cap qlen fin WP_FinRelease = fin"
| "wp_ok src cap qlen fin WP_Done = fin"

fun wc_inflight :: "wn_consumer \<Rightarrow> item list" where
  "wc_inflight (WC_Check c x) = [x]"
| "wc_inflight (WC_Count c x) = [x]"
| "wc_inflight (WC_Append c x) = [x]"
| "wc_inflight _ = []"

fun wc_lead :: "wn_consumer \<Rightarrow> int" where
  "wc_lead (WC_Append c x) = 1"
| "wc_lead _ = 0"

fun wc_ok :: "int \<Rightarrow> int \<Rightarrow> int \<Rightarrow> nat \<Rightarrow> bool \<Rightarrow> wn_consumer \<Rightarrow> bool" where
  "wc_ok t k cap qlen fin WC_Start = (k = 0)"
| "wc_ok t k cap qlen fin (WC_Loop c) = (c = k \<and> c \<le> t)"
| "wc_ok t k cap qlen fin (WC_Acquire c) = (c = k \<and> c < t)"
| "wc_ok t k cap qlen fin (WC_Test c w) = (c = k \<and> c < t)"
| "wc_ok t k cap qlen fin (WC_Waiting c w) = (c = k \<and> c < t)"
| "wc_ok t k cap qlen fin (WC_Notified c w) = (c = k \<and> c < t)"
| "wc_ok t k cap qlen fin (WC_Time c w) = (c = k \<and> c < t \<and> (0 < qlen \<or> fin))"
| "wc_ok t k cap qlen fin (WC_Break c) = (c = k \<and> c < t \<and> (0 < qlen \<or> fin))"
| "wc_ok t k cap qlen fin (WC_Pop c) = (c = k \<and> c < t \<and> 0 < qlen)"
| "wc_ok t k cap qlen fin (WC_Check c x) = (c = k \<and> c < t \<and> int qlen < cap)"
| "wc_ok t k cap qlen fin (WC_Count c x) = (c = k \<and> c < t \<and> int qlen < cap \<and> x \<noteq> None)"
| "wc_ok t k cap qlen fin (WC_Append c x) = (c = k \<and> c \<le> t \<and> x \<noteq> None)"
| "wc_ok t k cap qlen fin (WC_Notify c) = (c = k \<and> c \<le> t)"
| "wc_ok t k cap qlen fin (WC_Release c) = (c = k \<and> c \<le> t)"
| "wc_ok t k cap qlen fin WC_Done = (t \<le> k \<or> (qlen = 0 \<and> fin))"

definition wn_inv :: "wn_system \<Rightarrow> bool" where
  "wn_inv s =
     (0 < capacity (wn_self s)
      \<and> wn_owner s = (if wp_holds (wn_prod s) then Some Producer
                       else if wc_holds (wn_cons s) then Some Consumer else None)
      \<and> \<not> (wp_holds (wn_prod s) \<and> wc_holds (wn_cons s))
      \<and> wp_ok (source_container (wn_self s)) (capacity (wn_self s))
           (length (shared_queue (wn_self s))) (producer_finished (wn_self s)) (wn_prod s)
      \<and> destination_container (wn_self s) @ wc_inflight (wn_cons s) @ shared_queue (wn_self s) =
          nonsentinel (take (wp_put (length (source_container (wn_self s))) (wn_prod s))
                         (source_container (wn_self s)))
      \<and> items_produced (stats (wn_self s)) =
          int (length (nonsentinel (take (wp_counted (length (source_container (wn_self s))) (wn_prod s))
                         (source_container (wn_self s)))))
      \<and> items_consumed (stats (wn_self s)) =
          int (length (destination_container (wn_self s))) + wc_lead (wn_cons s)
      \<and> wc_ok (wn_total_items s) (items_consumed (stats (wn_self s))) (capacity (wn_self s))
           (length (shared_queue (wn_self s))) (producer_finished (wn_self s)) (wn_cons s)
      \<and> int (length (shared_queue (wn_self s))) \<le> capacity (wn_self s)
      \<and> max_queue_size (stats (wn_self s)) \<le> capacity (wn_self s))"

subsection \<open>States during a run, counter balance, deadlock\<close>

text \<open>
  The state of the two threads of \<open>run(item_count)\<close> after the events \<open>evs\<close>: \<open>None\<close> when
  \<open>initialize_source\<close> raised or \<open>evs\<close> schedules a thread that cannot take a step.
\<close>

definition q_during :: "int \<Rightarrow> real \<Rightarrow> event list \<Rightarrow> ProducerConsumer \<Rightarrow> q_system option" where
  "q_during item_count t0 evs self =
     (case initialize_source item_count self of
        (Some e, self1) \<Rightarrow> None
      | (None, self1) \<Rightarrow>
          q_exec evs (q_start item_count
             (stats_update (start_time_update (\<lambda>_. t0)) (reset_statistics self1))))"

definition wn_during :: "int \<Rightarrow> real \<Rightarrow> event list \<Rightarrow> ProducerConsumer \<Rightarrow> wn_system option" where
  "wn_during item_count t0 evs self =
     (case initialize_source item_count self of
        (Some e, self1) \<Rightarrow> None
      | (None, self1) \<Rightarrow>
          wn_exec evs (wn_start item_count
             (stats_update (start_time_update (\<lambda>_. t0)) (reset_statistics self1))))"

text \<open>\<open>stats.items_produced - stats.items_consumed\<close>.\<close>

definition q_balance :: "q_system \<Rightarrow> int" where
  "q_balance s = items_produced (stats (q_self s)) - items_consumed (stats (q_self s))"

definition wn_balance :: "wn_system \<Rightarrow> int" where
  "wn_balance s = items_produced (stats (wn_self s)) - items_consumed (stats (wn_self s))"

text \<open>
  Wait/notify: the producer has appended an item it has not counted yet; the consumer
  has popped an item it has not counted yet.
\<close>

fun wp_pending :: "wn_producer \<Rightarrow> int" where
  "wp_pending (WP_Max i) = 1"
| "wp_pending (WP_Inc i) = 1"
| "wp_pending _ = 0"

fun wc_pending :: "wn_consumer \<Rightarrow> int" where
  "wc_pending (WC_Check c x) = 1"
| "wc_pending (WC_Count c x) = 1"
| "wc_pending _ = 0"

text \<open>
  No thread can take a step although not both have returned. Whether a step is
  enabled does not depend on the clock reading (\<open>q_producer_step_enabled\<close> and
  \<open>q_consumer_step_enabled\<close> below).
\<close>

definition q_deadlocked :: "q_system \<Rightarrow> bool" where
  "q_deadlocked s =
     (\<not> q_finished s \<and> q_producer_step 0 s = None \<and> q_consumer_step 0 s = None)"

definition wn_deadlocked :: "wn_system \<Rightarrow> bool" where
  "wn_deadlocked s =
     (\<not> wn_finished s \<and> wn_producer_step 0 s = None \<and> wn_consumer_step 0 s = None)"

subsection \<open>Progress\<close>

text \<open>
  A rank for each place of a thread, and their sum: every step of either thread
  makes the sum smaller (a \<open>notify()\<close> that wakes the other thread raises that thread's
  rank by 2 and lowers the caller's by 3).
\<close>

fun qp_rank :: "nat \<Rightarrow> q_producer \<Rightarrow> nat" where
  "qp_rank n QP_Start = 7 * n + 2"
| "qp_rank n (QP_Loop i) = 7 * (n - i) + 1"
| "qp_rank n (QP_Put i w) = 7 * (n - Suc i) + 7"
| "qp_rank n (QP_Time i w) = 7 * (n - Suc i) + 6"
| "qp_rank n (QP_Size i) = 7 * (n - Suc i) + 5"
| "qp_rank n (QP_Max i c) = 7 * (n - Suc i) + 4"
| "qp_rank n (QP_Inc i) = 7 * (n - Suc i) + 3"
| "qp_rank n QP_Done = 0"

fun qc_rank :: "int \<Rightarrow> q_consumer \<Rightarrow> nat" where
  "qc_rank t QC_Start = 7 * nat t + 2"
| "qc_rank t (QC_Loop c) = 7 * nat (t - c) + 1"
| "qc_rank t (QC_Get c w) = 7 * nat (t - c - 1) + 7"
| "qc_rank t (QC_Time c w x) = 7 * nat (t - c - 1) + 6"
| "qc_rank t (QC_Check c x) = 7 * nat (t - c - 1) + 5"
| "qc_rank t (QC_Append c x) = 7 * nat (t - c - 1) + 4"
| "qc_rank t (QC_Count c) = 7 * nat (t - c - 1) + 3"
| "qc_rank t QC_Done = 0"

definition q_measure :: "q_system \<Rightarrow> nat" where
  "q_measure s =
     qp_rank (length (source_container (q_self s))) (q_prod s) + qc_rank (q_total_items s) (q_cons s)"

fun wp_rank :: "nat \<Rightarrow> wn_producer \<Rightarrow> nat" where
  "wp_rank n WP_Start = 20 * n + 8"
| "wp_rank n (WP_Loop i) = 20 * (n - i) + 7"
| "wp_rank n (WP_Acquire i) = 20 * (n - Suc i) + 25"
| "wp_rank n (WP_Notified i w) = 20 * (n - Suc i) + 25"
| "wp_rank n (WP_Test i w) = 20 * (n - Suc i) + 24"
| "wp_rank n (WP_Waiting i w) = 20 * (n - Suc i) + 23"
| "wp_rank n (WP_Time i w) = 20 * (n - Suc i) + 22"
| "wp_rank n (WP_Append i) = 20 * (n - Suc i) + 21"
| "wp_rank n (WP_Max i) = 20 * (n - Suc i) + 20"
| "wp_rank n (WP_Inc i) = 20 * (n - Suc i) + 19"
| "wp_rank n (WP_Notify i) = 20 * (n - Suc i) + 18"
| "wp_rank n (WP_Release i) = 20 * (n - Suc i) + 15"
| "wp_rank n WP_FinAcquire = 6"
| "wp_rank n WP_FinSet = 5"
| "wp_rank n WP_FinNotify = 4"
| "wp_rank n WP_FinRelease = 1"
| "wp_rank n WP_Done = 0"

fun wc_rank :: "int \<Rightarrow> wn_consumer \<Rightarrow> nat" where
  "wc_rank t WC_Start = 20 * nat t + 8"
| "wc_rank t (WC_Loop c) = 20 * nat (t - c) + 7"
| "wc_rank t (WC_Acquire c) = 20 * nat (t - c - 1) + 26"
| "wc_rank t (WC_Notified c w) = 20 * nat (t - c - 1) + 26"
| "wc_rank t (WC_Test c w) = 20 * nat (t - c - 1) + 25"
| "wc_rank t (WC_Waiting c w) = 20 * nat (t - c - 1) + 24"
| "wc_rank t (WC_Time c w) = 20 * nat (t - c - 1) + 23"
| "wc_rank t (WC_Break c) = 20 * nat (t - c - 1) + 22"
| "wc_rank t (WC_Pop c) = 20 * nat (t - c - 1) + 21"
| "wc_rank t (WC_Check c x) = 20 * nat (t - c - 1) + 20"
| "wc_rank t (WC_Count c x) = 20 * nat (t - c - 1) + 19"
| "wc_rank t (WC_Append c x) = 20 * nat (t - c) + 18"
| "wc_rank t (WC_Notify c) = 20 * nat (t - c) + 17"
| "wc_rank t (WC_Release c) = 20 * nat (t - c) + 14"
| "wc_rank t WC_Done = 0"

definition wn_measure :: "wn_system \<Rightarrow> nat" where
  "wn_measure s =
     wp_rank (length (source_container (wn_self s))) (wn_prod s)
     + wc_rank (wn_total_items s) (wn_cons s)"

text \<open>
  The consumer's target against the number of source items that are not sentinels:
  equal (\<open>q_balanced\<close>, as in \<open>run\<close>), or at least that number (\<open>wn_enough\<close>).
\<close>

definition q_balanced :: "q_system \<Rightarrow> bool" where
  "q_balanced s =
     (q_total_items s = int (length (nonsentinel (source_container (q_self s)))))"

definition wn_enough :: "wn_system \<Rightarrow> bool" where
  "wn_enough s =
     (int (length (nonsentinel (source_container (wn_self s)))) \<le> wn_total_items s)"

text \<open>
  No wake-up is lost. A producer inside \<open>wait()\<close> that has not been notified sees a
  full list, or the consumer is between its \<open>pop(0)\<close> and its \<open>notify()\<close>. A consumer
  inside \<open>wait()\<close> that has not been notified sees an empty list and the flag unset,
  or the producer is between its append (or its setting the flag) and its \<open>notify()\<close>.
\<close>

fun wp_waiting :: "wn_producer \<Rightarrow> bool" where
  "wp_waiting (WP_Waiting i w) = True"
| "wp_waiting _ = False"

fun wc_waiting :: "wn_consumer \<Rightarrow> bool" where
  "wc_waiting (WC_Waiting c w) = True"
| "wc_waiting _ = False"

fun wp_will_notify :: "wn_producer \<Rightarrow> bool" where
  "wp_will_notify (WP_Max i) = True"
| "wp_will_notify (WP_Inc i) = True"
| "wp_will_notify (WP_Notify i) = True"
| "wp_will_notify WP_FinNotify = True"
| "wp_will_notify _ = False"

fun wc_will_notify :: "wn_consumer \<Rightarrow> bool" where
  "wc_will_notify (WC_Check c x) = True"
| "wc_will_notify (WC_Count c x) = True"
| "wc_will_notify (WC_Append c x) = True"
| "wc_will_notify (WC_Notify c) = True"
| "wc_will_notify _ = False"

definition wn_live :: "wn_system \<Rightarrow> bool" where
  "wn_live s =
     ((\<not> wp_waiting (wn_prod s)
         \<or> int (length (shared_queue (wn_self s))) = capacity (wn_self s)
         \<or> wc_will_notify (wn_cons s))
      \<and> (\<not> wc_waiting (wn_cons s)
         \<or> (shared_queue (wn_self s) = [] \<and> \<not> producer_finished (wn_self s))
         \<or> wp_will_notify (wn_prod s)))"

section \<open>Arguments, reset and getters\<close>

text \<open>
  C5. Constructing either class with \<open>capacity <= 0\<close> raises the invalid-argument
  error (\<open>ValueError\<close>), \<open>initialize_source\<close> with a negative count raises it, and
  \<open>initialize_source_custom\<close> with \<open>None\<close> raises it; the caller gets the error and the
  object is as it was.
\<close>

theorem invalid_arguments_raise:
  assumes "cap \<le> 0" and "item_count < 0"
  shows "init cap = Inl (ValueError ''Queue capacity must be greater than 0'')
    \<and> initialize_source item_count self =
        (Some (ValueError ''Item count must be non-negative''), self)
    \<and> initialize_source_custom None self = (Some (ValueError ''Items list cannot be None''), self)"
  using assms by (simp add: init_def initialize_source_def initialize_source_custom_def)

theorem invalid_arguments_raise_witness:
  "init 0 = Inl (ValueError ''Queue capacity must be greater than 0'')
    \<and> initialize_source (- 1)
         \<lparr>shared_queue = [], source_container = [Some 7], destination_container = [],
          capacity = 5, stats = Statistics_new, producer_finished = False\<rparr> =
        (Some (ValueError ''Item count must be non-negative''),
         \<lparr>shared_queue = [], source_container = [Some 7], destination_container = [],
          capacity = 5, stats = Statistics_new, producer_finished = False\<rparr>)
    \<and> initialize_source_custom None
         \<lparr>shared_queue = [], source_container = [Some 7], destination_container = [],
          capacity = 5, stats = Statistics_new, producer_finished = False\<rparr> =
        (Some (ValueError ''Items list cannot be None''),
         \<lparr>shared_queue = [], source_container = [Some 7], destination_container = [],
          capacity = 5, stats = Statistics_new, producer_finished = False\<rparr>)"
  using invalid_arguments_raise [of 0 "- 1"] by simp

text \<open>
  C6. For every \<open>item_count < 0\<close>, \<open>run(item_count)\<close> raises the invalid-argument
  error whatever the schedule (no thread takes a step), and the object, with its
  destination and statistics, is as it was before the call, in both implementations.
\<close>

theorem run_negative_count_raises:
  assumes "item_count < 0"
  shows "q_run item_count t0 evs t1 self =
           Raised (ValueError ''Item count must be non-negative'') self
       \<and> wn_run item_count t0 evs t1 self =
           Raised (ValueError ''Item count must be non-negative'') self"
  using assms by (simp add: q_run_def wn_run_def initialize_source_def)

theorem run_negative_count_raises_witness:
  "q_run (- 3) 0 [(Producer, 1), (Consumer, 2)] 3
      \<lparr>shared_queue = [], source_container = [Some 1], destination_container = [Some 1],
       capacity = 2, stats = Statistics_new\<lparr>items_produced := 1, items_consumed := 1\<rparr>,
       producer_finished = True\<rparr> =
     Raised (ValueError ''Item count must be non-negative'')
      \<lparr>shared_queue = [], source_container = [Some 1], destination_container = [Some 1],
       capacity = 2, stats = Statistics_new\<lparr>items_produced := 1, items_consumed := 1\<rparr>,
       producer_finished = True\<rparr>
   \<and> wn_run (- 3) 0 [(Producer, 1), (Consumer, 2)] 3
      \<lparr>shared_queue = [], source_container = [Some 1], destination_container = [Some 1],
       capacity = 2, stats = Statistics_new\<lparr>items_produced := 1, items_consumed := 1\<rparr>,
       producer_finished = True\<rparr> =
     Raised (ValueError ''Item count must be non-negative'')
      \<lparr>shared_queue = [], source_container = [Some 1], destination_container = [Some 1],
       capacity = 2, stats = Statistics_new\<lparr>items_produced := 1, items_consumed := 1\<rparr>,
       producer_finished = True\<rparr>"
  using run_negative_count_raises [of "- 3"] by simp

text \<open>
  C9. In any state, \<open>reset_statistics\<close> makes every field of the statistics zero
  (both counters, both wait-time sums, the high-water mark, the start and end
  timestamps) and the destination empty.
\<close>

theorem reset_statistics_zero:
  "items_produced (stats (reset_statistics self)) = 0
   \<and> items_consumed (stats (reset_statistics self)) = 0
   \<and> producer_wait_time (stats (reset_statistics self)) = 0
   \<and> consumer_wait_time (stats (reset_statistics self)) = 0
   \<and> max_queue_size (stats (reset_statistics self)) = 0
   \<and> start_time (stats (reset_statistics self)) = 0
   \<and> end_time (stats (reset_statistics self)) = 0
   \<and> fst (get_destination_container (reset_statistics self)) = []"
  by (simp add: reset_statistics_def Statistics_new_def get_destination_container_def)

text \<open>
  C10. In any state, \<open>reset_statistics\<close> leaves the source, the capacity and the
  shared queue as they were: it changes the statistics, the producer-finished flag and
  the destination only. \<open>get_source_container\<close> and \<open>get_destination_container\<close> leave
  the whole object as it was.
\<close>

theorem reset_and_getters_frame:
  "reset_statistics self =
     self\<lparr>stats := stats (reset_statistics self),
          producer_finished := producer_finished (reset_statistics self),
          destination_container := destination_container (reset_statistics self)\<rparr>
   \<and> source_container (reset_statistics self) = source_container self
   \<and> capacity (reset_statistics self) = capacity self
   \<and> shared_queue (reset_statistics self) = shared_queue self
   \<and> snd (get_source_container self) = self
   \<and> snd (get_destination_container self) = self"
  by (simp add: reset_statistics_def get_source_container_def get_destination_container_def)

section \<open>The invariants hold along every schedule\<close>

lemma nonsentinel_take_Suc:
  "i < length xs \<Longrightarrow>
     nonsentinel (take (Suc i) xs) =
       nonsentinel (take i xs) @ (if xs ! i = None then [] else [xs ! i])"
  by (simp add: nonsentinel_def take_Suc_conv_app_nth)

lemma nonsentinel_no_None: "ys @ [None] @ zs \<noteq> nonsentinel xs"
proof
  assume "ys @ [None] @ zs = nonsentinel xs"
  then have "None \<in> set (nonsentinel xs)" by (metis in_set_conv_decomp append_Cons append_Nil)
  then show False by (simp add: nonsentinel_def)
qed

lemma q_producer_step_inv:
  assumes "q_inv s" and "q_producer_step now s = Some s'"
  shows "q_inv s'"
proof (cases "q_prod s")
  case QP_Start
  with assms show ?thesis
    by (auto simp: q_inv_def q_producer_step_def nonsentinel_def split: if_splits)
next
  case (QP_Loop i)
  with assms show ?thesis
    by (auto simp: q_inv_def q_producer_step_def nonsentinel_take_Suc split: if_splits option.splits)
next
  case (QP_Put i w)
  with assms show ?thesis
    by (auto simp: q_inv_def q_producer_step_def nonsentinel_take_Suc queue_full_def split: if_splits)
next
  case (QP_Time i w)
  with assms show ?thesis
    by (auto simp: q_inv_def q_producer_step_def)
next
  case (QP_Size i)
  with assms show ?thesis
    by (auto simp: q_inv_def q_producer_step_def)
next
  case (QP_Max i c)
  with assms show ?thesis
    by (auto simp: q_inv_def q_producer_step_def)
next
  case (QP_Inc i)
  with assms show ?thesis
    by (auto simp: q_inv_def q_producer_step_def nonsentinel_take_Suc)
next
  case QP_Done
  with assms show ?thesis by (simp add: q_producer_step_def)
qed

lemma q_consumer_step_inv:
  assumes "q_inv s" and "q_consumer_step now s = Some s'"
  shows "q_inv s'"
proof (cases "q_cons s")
  case QC_Start
  with assms show ?thesis
    by (auto simp: q_inv_def q_consumer_step_def split: if_splits)
next
  case (QC_Loop c)
  with assms show ?thesis
    by (auto simp: q_inv_def q_consumer_step_def split: if_splits)
next
  case (QC_Get c w)
  with assms show ?thesis
    by (auto simp: q_inv_def q_consumer_step_def split: if_splits list.splits)
next
  case (QC_Time c w x)
  with assms show ?thesis
    by (auto simp: q_inv_def q_consumer_step_def)
next
  case (QC_Check c x)
  with assms nonsentinel_no_None show ?thesis
    by (cases x) (auto simp: q_inv_def q_consumer_step_def)
next
  case (QC_Append c x)
  with assms show ?thesis
    by (auto simp: q_inv_def q_consumer_step_def)
next
  case (QC_Count c)
  with assms show ?thesis
    by (auto simp: q_inv_def q_consumer_step_def)
next
  case QC_Done
  with assms show ?thesis by (simp add: q_consumer_step_def)
qed

lemma notify_consumer_simps [simp]:
  "wn_self (notify_consumer s) = wn_self s"
  "wn_owner (notify_consumer s) = wn_owner s"
  "wn_prod (notify_consumer s) = wn_prod s"
  "wn_total_items (notify_consumer s) = wn_total_items s"
  "wc_holds (wn_cons (notify_consumer s)) = wc_holds (wn_cons s)"
  "wc_inflight (wn_cons (notify_consumer s)) = wc_inflight (wn_cons s)"
  "wc_lead (wn_cons (notify_consumer s)) = wc_lead (wn_cons s)"
  "wc_ok t k cap qlen fin (wn_cons (notify_consumer s)) = wc_ok t k cap qlen fin (wn_cons s)"
  by (cases "wn_cons s"; simp add: notify_consumer_def)+

lemma notify_producer_simps [simp]:
  "wn_self (notify_producer s) = wn_self s"
  "wn_owner (notify_producer s) = wn_owner s"
  "wn_cons (notify_producer s) = wn_cons s"
  "wn_total_items (notify_producer s) = wn_total_items s"
  "wp_holds (wn_prod (notify_producer s)) = wp_holds (wn_prod s)"
  "wp_put n (wn_prod (notify_producer s)) = wp_put n (wn_prod s)"
  "wp_counted n (wn_prod (notify_producer s)) = wp_counted n (wn_prod s)"
  "wp_ok src cap qlen fin (wn_prod (notify_producer s)) = wp_ok src cap qlen fin (wn_prod s)"
  by (cases "wn_prod s"; simp add: notify_producer_def)+

lemma wn_producer_step_inv:
  assumes "wn_inv s" and "wn_producer_step now s = Some s'"
  shows "wn_inv s'"
proof (cases "wn_prod s")
  case WP_Start
  with assms show ?thesis
    by (auto simp: wn_inv_def wn_producer_step_def nonsentinel_def split: if_splits)
next
  case (WP_Loop i)
  with assms show ?thesis
    by (auto simp: wn_inv_def wn_producer_step_def nonsentinel_take_Suc split: if_splits option.splits)
next
  case (WP_Acquire i)
  with assms show ?thesis
    by (auto simp: wn_inv_def wn_producer_step_def split: if_splits)
next
  case (WP_Test i w)
  with assms show ?thesis
    by (auto simp: wn_inv_def wn_producer_step_def split: if_splits)
next
  case (WP_Waiting i w)
  with assms show ?thesis by (simp add: wn_producer_step_def)
next
  case (WP_Notified i w)
  with assms show ?thesis
    by (auto simp: wn_inv_def wn_producer_step_def split: if_splits)
next
  case (WP_Time i w)
  with assms show ?thesis
    by (auto simp: wn_inv_def wn_producer_step_def)
next
  case (WP_Append i)
  with assms show ?thesis
    by (cases "wn_cons s") (auto simp: wn_inv_def wn_producer_step_def nonsentinel_take_Suc)
next
  case (WP_Max i)
  with assms show ?thesis
    by (auto simp: wn_inv_def wn_producer_step_def)
next
  case (WP_Inc i)
  with assms show ?thesis
    by (auto simp: wn_inv_def wn_producer_step_def nonsentinel_take_Suc)
next
  case (WP_Notify i)
  with assms show ?thesis
    by (auto simp: wn_inv_def wn_producer_step_def)
next
  case (WP_Release i)
  with assms show ?thesis
    by (auto simp: wn_inv_def wn_producer_step_def)
next
  case WP_FinAcquire
  with assms show ?thesis
    by (auto simp: wn_inv_def wn_producer_step_def split: if_splits)
next
  case WP_FinSet
  with assms show ?thesis
    by (cases "wn_cons s") (auto simp: wn_inv_def wn_producer_step_def)
next
  case WP_FinNotify
  with assms show ?thesis
    by (auto simp: wn_inv_def wn_producer_step_def)
next
  case WP_FinRelease
  with assms show ?thesis
    by (auto simp: wn_inv_def wn_producer_step_def)
next
  case WP_Done
  with assms show ?thesis by (simp add: wn_producer_step_def)
qed


lemma wn_consumer_step_inv:
  assumes "wn_inv s" and "wn_consumer_step now s = Some s'"
  shows "wn_inv s'"
proof (cases "wn_cons s")
  case WC_Start
  with assms show ?thesis
    by (auto simp: wn_inv_def wn_consumer_step_def split: if_splits)
next
  case (WC_Loop c)
  with assms show ?thesis
    by (auto simp: wn_inv_def wn_consumer_step_def split: if_splits)
next
  case (WC_Acquire c)
  with assms show ?thesis
    by (auto simp: wn_inv_def wn_consumer_step_def split: if_splits)
next
  case (WC_Test c w)
  with assms show ?thesis
    by (auto simp: wn_inv_def wn_consumer_step_def split: if_splits)
next
  case (WC_Waiting c w)
  with assms show ?thesis by (simp add: wn_consumer_step_def)
next
  case (WC_Notified c w)
  with assms show ?thesis
    by (auto simp: wn_inv_def wn_consumer_step_def split: if_splits)
next
  case (WC_Time c w)
  with assms show ?thesis
    by (auto simp: wn_inv_def wn_consumer_step_def)
next
  case (WC_Break c)
  with assms show ?thesis
    by (auto simp: wn_inv_def wn_consumer_step_def split: if_splits)
next
  case (WC_Pop c)
  with assms show ?thesis
    by (cases "wn_prod s") (auto simp: wn_inv_def wn_consumer_step_def split: list.splits)
next
  case (WC_Check c x)
  with assms nonsentinel_no_None show ?thesis
    by (cases x) (auto simp: wn_inv_def wn_consumer_step_def)
next
  case (WC_Count c x)
  with assms show ?thesis
    by (auto simp: wn_inv_def wn_consumer_step_def)
next
  case (WC_Append c x)
  with assms show ?thesis
    by (auto simp: wn_inv_def wn_consumer_step_def)
next
  case (WC_Notify c)
  with assms show ?thesis
    by (auto simp: wn_inv_def wn_consumer_step_def)
next
  case (WC_Release c)
  with assms show ?thesis
    by (auto simp: wn_inv_def wn_consumer_step_def)
next
  case WC_Done
  with assms show ?thesis by (simp add: wn_consumer_step_def)
qed

lemma q_step_inv: "q_inv s \<Longrightarrow> q_step ev s = Some s' \<Longrightarrow> q_inv s'"
  by (auto simp: q_step_def split: tid.splits intro: q_producer_step_inv q_consumer_step_inv)

lemma q_exec_inv: "q_inv s \<Longrightarrow> q_exec evs s = Some s' \<Longrightarrow> q_inv s'"
proof (induction evs arbitrary: s)
  case Nil
  then show ?case by simp
next
  case (Cons ev evs)
  then show ?case by (auto split: option.splits dest: q_step_inv)
qed

lemma q_producer_step_frame:
  "q_producer_step now s = Some s' \<Longrightarrow>
     source_container (q_self s') = source_container (q_self s)
     \<and> capacity (q_self s') = capacity (q_self s) \<and> q_total_items s' = q_total_items s"
  by (cases "q_prod s") (auto simp: q_producer_step_def split: if_splits option.splits)

lemma q_consumer_step_frame:
  "q_consumer_step now s = Some s' \<Longrightarrow>
     source_container (q_self s') = source_container (q_self s)
     \<and> capacity (q_self s') = capacity (q_self s) \<and> q_total_items s' = q_total_items s"
  by (cases "q_cons s") (auto simp: q_consumer_step_def split: if_splits option.splits list.splits)

lemma q_exec_frame:
  "q_exec evs s = Some s' \<Longrightarrow>
     source_container (q_self s') = source_container (q_self s)
     \<and> capacity (q_self s') = capacity (q_self s) \<and> q_total_items s' = q_total_items s"
proof (induction evs arbitrary: s)
  case Nil
  then show ?case by simp
next
  case (Cons ev evs)
  then show ?case
    by (cases "fst ev")
       (auto simp: q_step_def split: option.splits
             dest!: q_producer_step_frame q_consumer_step_frame)
qed

lemma q_inv_start:
  assumes "0 < capacity self" and "shared_queue self = []"
  shows "q_inv (q_start total_items (stats_update (start_time_update (\<lambda>_. t0)) (reset_statistics self)))"
  using assms by (simp add: q_inv_def q_start_def reset_statistics_def Statistics_new_def nonsentinel_def)

lemma nonsentinel_map_Some [simp]: "nonsentinel (map Some xs) = map Some xs"
  by (induction xs) (simp_all add: nonsentinel_def)

lemma length_upto_1: "0 \<le> n \<Longrightarrow> int (length [1..n]) = n"
  by simp

lemma q_inv_finished:
  assumes "q_inv s" and "q_finished s"
    and "nonsentinel (source_container (q_self s)) = source_container (q_self s)"
    and "q_total_items s = int (length (source_container (q_self s)))"
  shows "destination_container (q_self s) = source_container (q_self s)
    \<and> shared_queue (q_self s) = []
    \<and> items_produced (stats (q_self s)) = q_total_items s
    \<and> items_consumed (stats (q_self s)) = q_total_items s"
proof -
  from assms(1,2) have dq: "destination_container (q_self s) @ shared_queue (q_self s) =
      nonsentinel (source_container (q_self s))"
    and p: "items_produced (stats (q_self s)) = int (length (nonsentinel (source_container (q_self s))))"
    and c: "items_consumed (stats (q_self s)) = int (length (destination_container (q_self s)))"
    and t: "q_total_items s \<le> items_consumed (stats (q_self s))"
    by (simp_all add: q_inv_def q_finished_def)
  from dq assms(3) have l: "length (destination_container (q_self s)) + length (shared_queue (q_self s))
      = length (source_container (q_self s))"
    by (metis length_append)
  from l t c assms(4) have "length (shared_queue (q_self s)) = 0" by linarith
  then have "shared_queue (q_self s) = []" by simp
  with dq assms(3,4) p c show ?thesis by simp
qed

lemma wn_step_inv: "wn_inv s \<Longrightarrow> wn_step ev s = Some s' \<Longrightarrow> wn_inv s'"
  by (auto simp: wn_step_def split: tid.splits intro: wn_producer_step_inv wn_consumer_step_inv)

lemma wn_exec_inv: "wn_inv s \<Longrightarrow> wn_exec evs s = Some s' \<Longrightarrow> wn_inv s'"
proof (induction evs arbitrary: s)
  case Nil
  then show ?case by simp
next
  case (Cons ev evs)
  then show ?case by (auto split: option.splits dest: wn_step_inv)
qed

lemma wn_producer_step_frame:
  "wn_producer_step now s = Some s' \<Longrightarrow>
     source_container (wn_self s') = source_container (wn_self s)
     \<and> capacity (wn_self s') = capacity (wn_self s) \<and> wn_total_items s' = wn_total_items s"
  by (cases "wn_prod s") (auto simp: wn_producer_step_def split: if_splits option.splits)

lemma wn_consumer_step_frame:
  "wn_consumer_step now s = Some s' \<Longrightarrow>
     source_container (wn_self s') = source_container (wn_self s)
     \<and> capacity (wn_self s') = capacity (wn_self s) \<and> wn_total_items s' = wn_total_items s"
  by (cases "wn_cons s") (auto simp: wn_consumer_step_def split: if_splits option.splits list.splits)

lemma wn_exec_frame:
  "wn_exec evs s = Some s' \<Longrightarrow>
     source_container (wn_self s') = source_container (wn_self s)
     \<and> capacity (wn_self s') = capacity (wn_self s) \<and> wn_total_items s' = wn_total_items s"
proof (induction evs arbitrary: s)
  case Nil
  then show ?case by simp
next
  case (Cons ev evs)
  then show ?case
    by (cases "fst ev")
       (auto simp: wn_step_def split: option.splits
             dest!: wn_producer_step_frame wn_consumer_step_frame)
qed

lemma wn_inv_start:
  assumes "0 < capacity self" and "shared_queue self = []"
  shows "wn_inv (wn_start total_items (stats_update (start_time_update (\<lambda>_. t0)) (reset_statistics self)))"
  using assms by (simp add: wn_inv_def wn_start_def reset_statistics_def Statistics_new_def nonsentinel_def)

lemma wn_inv_finished:
  assumes "wn_inv s" and "wn_finished s"
    and "nonsentinel (source_container (wn_self s)) = source_container (wn_self s)"
    and "wn_total_items s = int (length (source_container (wn_self s)))"
  shows "destination_container (wn_self s) = source_container (wn_self s)
    \<and> shared_queue (wn_self s) = []
    \<and> items_produced (stats (wn_self s)) = wn_total_items s
    \<and> items_consumed (stats (wn_self s)) = wn_total_items s"
proof -
  from assms(1,2) have dq: "destination_container (wn_self s) @ shared_queue (wn_self s) =
      nonsentinel (source_container (wn_self s))"
    and p: "items_produced (stats (wn_self s)) = int (length (nonsentinel (source_container (wn_self s))))"
    and c: "items_consumed (stats (wn_self s)) = int (length (destination_container (wn_self s)))"
    and t: "wn_total_items s \<le> items_consumed (stats (wn_self s))
            \<or> length (shared_queue (wn_self s)) = 0"
    by (auto simp: wn_inv_def wn_finished_def)
  from dq assms(3) have l: "length (destination_container (wn_self s)) + length (shared_queue (wn_self s))
      = length (source_container (wn_self s))"
    by (metis length_append)
  from l t c assms(4) have "length (shared_queue (wn_self s)) = 0" by linarith
  then have "shared_queue (wn_self s) = []" by simp
  with dq assms(3,4) p c show ?thesis by simp
qed

text \<open>The constructor returns an object with a positive capacity and an empty queue.\<close>

lemma init_idle:
  "init cap = Inr self \<Longrightarrow> capacity self = cap \<and> 0 < capacity self \<and> shared_queue self = []"
  by (auto simp: init_def split: if_splits)

text \<open>What a completed run leaves, for both implementations.\<close>

lemma q_run_returned:
  assumes "0 < capacity self" and "shared_queue self = []"
    and "q_run item_count t0 evs t1 self = Returned self'"
  shows "0 \<le> item_count
    \<and> source_container self' = map Some [1..item_count]
    \<and> destination_container self' = map Some [1..item_count]
    \<and> shared_queue self' = []
    \<and> capacity self' = capacity self
    \<and> items_produced (stats self') = item_count
    \<and> items_consumed (stats self') = item_count
    \<and> max_queue_size (stats self') \<le> capacity self"
proof -
  from assms(3) have n: "0 \<le> item_count"
    by (auto simp: q_run_def initialize_source_def split: if_splits)
  define self1 where "self1 = self\<lparr>source_container := map Some [1..item_count]\<rparr>"
  define s0 where "s0 = q_start item_count
      (stats_update (start_time_update (\<lambda>_. t0)) (reset_statistics self1))"
  from assms(3) n obtain s where ex: "q_exec evs s0 = Some s" and fin: "q_finished s"
    and r: "self' = stats_update (end_time_update (\<lambda>_. t1)) (q_self s)"
    by (auto simp: q_run_def initialize_source_def s0_def self1_def split: option.splits if_splits)
  from assms(1,2) have i0: "q_inv s0"
    unfolding s0_def by (intro q_inv_start) (simp_all add: self1_def)
  from i0 ex have inv: "q_inv s" by (rule q_exec_inv)
  from q_exec_frame [OF ex]
  have fr: "source_container (q_self s) = map Some [1..item_count]"
    "capacity (q_self s) = capacity self" "q_total_items s = item_count"
    by (simp_all add: s0_def self1_def q_start_def reset_statistics_def)
  from n fr have "q_total_items s = int (length (source_container (q_self s)))" by simp
  with q_inv_finished [OF inv fin] fr have
    "destination_container (q_self s) = map Some [1..item_count]"
    "shared_queue (q_self s) = []"
    "items_produced (stats (q_self s)) = item_count"
    "items_consumed (stats (q_self s)) = item_count"
    by simp_all
  moreover from inv fr have "max_queue_size (stats (q_self s)) \<le> capacity self"
    by (simp add: q_inv_def)
  ultimately show ?thesis using n r fr by simp
qed

lemma wn_run_returned:
  assumes "0 < capacity self" and "shared_queue self = []"
    and "wn_run item_count t0 evs t1 self = Returned self'"
  shows "0 \<le> item_count
    \<and> source_container self' = map Some [1..item_count]
    \<and> destination_container self' = map Some [1..item_count]
    \<and> shared_queue self' = []
    \<and> capacity self' = capacity self
    \<and> items_produced (stats self') = item_count
    \<and> items_consumed (stats self') = item_count
    \<and> max_queue_size (stats self') \<le> capacity self"
proof -
  from assms(3) have n: "0 \<le> item_count"
    by (auto simp: wn_run_def initialize_source_def split: if_splits)
  define self1 where "self1 = self\<lparr>source_container := map Some [1..item_count]\<rparr>"
  define s0 where "s0 = wn_start item_count
      (stats_update (start_time_update (\<lambda>_. t0)) (reset_statistics self1))"
  from assms(3) n obtain s where ex: "wn_exec evs s0 = Some s" and fin: "wn_finished s"
    and r: "self' = stats_update (end_time_update (\<lambda>_. t1)) (wn_self s)"
    by (auto simp: wn_run_def initialize_source_def s0_def self1_def split: option.splits if_splits)
  from assms(1,2) have i0: "wn_inv s0"
    unfolding s0_def by (intro wn_inv_start) (simp_all add: self1_def)
  from i0 ex have inv: "wn_inv s" by (rule wn_exec_inv)
  from wn_exec_frame [OF ex]
  have fr: "source_container (wn_self s) = map Some [1..item_count]"
    "capacity (wn_self s) = capacity self" "wn_total_items s = item_count"
    by (simp_all add: s0_def self1_def wn_start_def reset_statistics_def)
  from n fr have "wn_total_items s = int (length (source_container (wn_self s)))" by simp
  with wn_inv_finished [OF inv fin] fr have
    "destination_container (wn_self s) = map Some [1..item_count]"
    "shared_queue (wn_self s) = []"
    "items_produced (stats (wn_self s)) = item_count"
    "items_consumed (stats (wn_self s)) = item_count"
    by simp_all
  moreover from inv fr have "max_queue_size (stats (wn_self s)) \<le> capacity self"
    by (simp add: wn_inv_def)
  ultimately show ?thesis using n r fr by simp
qed

lemma q_during_inv:
  assumes "0 < capacity self" and "shared_queue self = []"
    and "q_during item_count t0 evs self = Some s"
  shows "q_inv s \<and> capacity (q_self s) = capacity self"
proof -
  define self1 where "self1 = self\<lparr>source_container := map Some [1..item_count]\<rparr>"
  define s0 where "s0 = q_start item_count
      (stats_update (start_time_update (\<lambda>_. t0)) (reset_statistics self1))"
  from assms(3) have ex: "q_exec evs s0 = Some s"
    by (auto simp: q_during_def initialize_source_def s0_def self1_def split: if_splits)
  from assms(1,2) have i0: "q_inv s0"
    unfolding s0_def by (intro q_inv_start) (simp_all add: self1_def)
  from i0 ex have "q_inv s" by (rule q_exec_inv)
  moreover from q_exec_frame [OF ex] have "capacity (q_self s) = capacity self"
    by (simp add: s0_def self1_def q_start_def reset_statistics_def)
  ultimately show ?thesis by simp
qed

lemma wn_during_inv:
  assumes "0 < capacity self" and "shared_queue self = []"
    and "wn_during item_count t0 evs self = Some s"
  shows "wn_inv s \<and> capacity (wn_self s) = capacity self"
proof -
  define self1 where "self1 = self\<lparr>source_container := map Some [1..item_count]\<rparr>"
  define s0 where "s0 = wn_start item_count
      (stats_update (start_time_update (\<lambda>_. t0)) (reset_statistics self1))"
  from assms(3) have ex: "wn_exec evs s0 = Some s"
    by (auto simp: wn_during_def initialize_source_def s0_def self1_def split: if_splits)
  from assms(1,2) have i0: "wn_inv s0"
    unfolding s0_def by (intro wn_inv_start) (simp_all add: self1_def)
  from i0 ex have "wn_inv s" by (rule wn_exec_inv)
  moreover from wn_exec_frame [OF ex] have "capacity (wn_self s) = capacity self"
    by (simp add: s0_def self1_def wn_start_def reset_statistics_def)
  ultimately show ?thesis by simp
qed

section \<open>Counter balance\<close>

lemma qp_put_counted:
  assumes "qp_ok src cap p"
  shows "int (length (nonsentinel (take (qp_put n p) src))) =
         int (length (nonsentinel (take (qp_counted n p) src)))
         \<or> int (length (nonsentinel (take (qp_put n p) src))) =
         int (length (nonsentinel (take (qp_counted n p) src))) + 1"
  using assms by (cases p) (simp_all add: nonsentinel_take_Suc)

lemma qc_inflight_lag:
  "int (length (qc_inflight c)) + qc_lag c = 0 \<or> int (length (qc_inflight c)) + qc_lag c = 1"
  by (cases c) simp_all

lemma q_balance_bounds:
  assumes "q_inv s"
  shows "- 1 \<le> q_balance s \<and> q_balance s \<le> capacity (q_self s) + 1"
proof -
  let ?src = "source_container (q_self s)"
  let ?n = "length ?src"
  let ?put = "int (length (nonsentinel (take (qp_put ?n (q_prod s)) ?src)))"
  let ?cnt = "int (length (nonsentinel (take (qp_counted ?n (q_prod s)) ?src)))"
  from assms have "length (destination_container (q_self s) @ qc_inflight (q_cons s)
        @ shared_queue (q_self s)) = length (nonsentinel (take (qp_put ?n (q_prod s)) ?src))"
    by (simp only: q_inv_def)
  then have a: "int (length (destination_container (q_self s)))
      + int (length (qc_inflight (q_cons s))) + int (length (shared_queue (q_self s))) = ?put"
    by simp
  from assms have b: "items_produced (stats (q_self s)) = ?cnt"
    and c: "items_consumed (stats (q_self s)) =
        int (length (destination_container (q_self s))) - qc_lag (q_cons s)"
    and q: "int (length (shared_queue (q_self s))) \<le> capacity (q_self s)"
    and ok: "qp_ok ?src (capacity (q_self s)) (q_prod s)"
    unfolding q_inv_def by blast+
  from qp_put_counted [OF ok] have d: "?put = ?cnt \<or> ?put = ?cnt + 1" .
  note e = qc_inflight_lag [of "q_cons s"]
  from a b c q d e show ?thesis unfolding q_balance_def by linarith
qed

lemma wp_put_counted:
  assumes "wp_ok src cap qlen fin p"
  shows "int (length (nonsentinel (take (wp_put n p) src))) =
         int (length (nonsentinel (take (wp_counted n p) src))) + wp_pending p"
  using assms by (cases p) (simp_all add: nonsentinel_take_Suc)

lemma wc_inflight_lead: "int (length (wc_inflight c)) - wc_lead c = wc_pending c"
  by (cases c) simp_all

lemma wp_pending_holds:
  "wp_ok src cap qlen fin p \<Longrightarrow> wp_pending p = 0 \<or> (wp_pending p = 1 \<and> wp_holds p \<and> 0 < qlen)"
  by (cases p) simp_all

lemma wc_pending_holds:
  "wc_ok t k cap qlen fin c \<Longrightarrow> wc_pending c = 0 \<or> (wc_pending c = 1 \<and> wc_holds c \<and> int qlen < cap)"
  by (cases c) simp_all

lemma wn_balance_bounds:
  assumes "wn_inv s"
  shows "0 \<le> wn_balance s \<and> wn_balance s \<le> capacity (wn_self s)"
proof -
  let ?src = "source_container (wn_self s)"
  let ?n = "length ?src"
  let ?put = "int (length (nonsentinel (take (wp_put ?n (wn_prod s)) ?src)))"
  let ?cnt = "int (length (nonsentinel (take (wp_counted ?n (wn_prod s)) ?src)))"
  let ?qlen = "length (shared_queue (wn_self s))"
  from assms have "length (destination_container (wn_self s) @ wc_inflight (wn_cons s)
        @ shared_queue (wn_self s)) = length (nonsentinel (take (wp_put ?n (wn_prod s)) ?src))"
    by (simp only: wn_inv_def)
  then have a: "int (length (destination_container (wn_self s)))
      + int (length (wc_inflight (wn_cons s))) + int ?qlen = ?put"
    by simp
  from assms have b: "items_produced (stats (wn_self s)) = ?cnt"
    and c: "items_consumed (stats (wn_self s)) =
        int (length (destination_container (wn_self s))) + wc_lead (wn_cons s)"
    and q: "int ?qlen \<le> capacity (wn_self s)"
    and pok: "wp_ok ?src (capacity (wn_self s)) ?qlen (producer_finished (wn_self s)) (wn_prod s)"
    and cok: "wc_ok (wn_total_items s) (items_consumed (stats (wn_self s))) (capacity (wn_self s))
        ?qlen (producer_finished (wn_self s)) (wn_cons s)"
    and ex: "\<not> (wp_holds (wn_prod s) \<and> wc_holds (wn_cons s))"
    unfolding wn_inv_def by blast+
  note d = wp_put_counted [OF pok, of ?n]
  note e = wc_inflight_lead [of "wn_cons s"]
  from a b c d e have bal: "wn_balance s = int ?qlen + wc_pending (wn_cons s) - wp_pending (wn_prod s)"
    unfolding wn_balance_def by linarith
  from wp_pending_holds [OF pok] wc_pending_holds [OF cok] ex q bal
  show ?thesis by (elim disjE conjE) simp_all
qed

section \<open>Blocking\<close>

lemma q_producer_step_enabled:
  "(q_producer_step now s = None) = (q_producer_step 0 s = None)"
  by (cases "q_prod s") (simp_all add: q_producer_step_def split: option.splits)

lemma q_consumer_step_enabled:
  "(q_consumer_step now s = None) = (q_consumer_step 0 s = None)"
  by (cases "q_cons s") (simp_all add: q_consumer_step_def split: option.splits list.splits)

lemma q_deadlocked_no_step: "q_deadlocked s \<Longrightarrow> q_step ev s = None"
  using q_producer_step_enabled [of "snd ev" s] q_consumer_step_enabled [of "snd ev" s]
  by (cases "fst ev") (simp_all add: q_deadlocked_def q_step_def)

lemma q_deadlocked_forever:
  "q_deadlocked s \<Longrightarrow> q_exec evs s = Some s' \<Longrightarrow> evs = [] \<and> s' = s"
  by (cases evs) (simp_all add: q_deadlocked_no_step)

lemma q_consumer_blocks_at_get:
  assumes "q_prod s = QP_Done" and "q_cons s = QC_Get consumed wait_start"
    and "shared_queue (q_self s) = []"
  shows "q_deadlocked s"
  using assms by (simp add: q_deadlocked_def q_finished_def q_producer_step_def q_consumer_step_def)

lemma wn_consumer_breaks:
  assumes "wn_cons s = WC_Break consumed" and "shared_queue (wn_self s) = []"
    and "producer_finished (wn_self s)"
  shows "wn_consumer_step now s = Some (s\<lparr>wn_owner := None, wn_cons := WC_Done\<rparr>)"
  using assms by (simp add: wn_consumer_step_def)

lemma wn_consumer_returns_example:
  "map_option (\<lambda>s. (producer_finished (wn_self s), shared_queue (wn_self s), wn_finished s))
     (wn_exec (replicate 3 (Producer, 1) @ replicate 4 (Consumer, 2) @ replicate 4 (Producer, 3)
               @ replicate 4 (Consumer, 4))
        (wn_start 1 (reset_statistics
           \<lparr>shared_queue = [], source_container = [None], destination_container = [],
            capacity = 1, stats = Statistics_new, producer_finished = False\<rparr>)))
   = Some (True, [], True)"
  by code_simp

section \<open>Progress: every step counts down, no deadlock in a run\<close>

lemma q_producer_step_decreases:
  assumes "q_inv s" and "q_producer_step now s = Some s'"
  shows "q_measure s' < q_measure s"
proof (cases "q_prod s")
  case (QP_Loop i)
  with assms show ?thesis
    by (auto simp: q_measure_def q_producer_step_def q_inv_def split: if_splits option.splits)
next
  case (QP_Inc i)
  with assms show ?thesis
    by (auto simp: q_measure_def q_producer_step_def q_inv_def Suc_diff_Suc)
qed (use assms in \<open>auto simp: q_measure_def q_producer_step_def q_inv_def split: if_splits\<close>)

lemma q_consumer_step_decreases:
  assumes "q_inv s" and "q_consumer_step now s = Some s'"
  shows "q_measure s' < q_measure s"
proof (cases "q_cons s")
  case (QC_Check c x)
  with assms nonsentinel_no_None show ?thesis
    by (cases x) (auto simp: q_measure_def q_consumer_step_def q_inv_def)
qed (use assms in \<open>auto simp: q_measure_def q_consumer_step_def q_inv_def split: if_splits list.splits\<close>)


lemma q_step_decreases: "q_inv s \<Longrightarrow> q_step ev s = Some s' \<Longrightarrow> q_measure s' < q_measure s"
  by (cases "fst ev")
     (auto simp: q_step_def dest: q_producer_step_decreases q_consumer_step_decreases)

lemma q_exec_length:
  "q_inv s \<Longrightarrow> q_exec evs s = Some s' \<Longrightarrow> length evs + q_measure s' \<le> q_measure s"
proof (induction evs arbitrary: s)
  case Nil
  then show ?case by simp
next
  case (Cons ev evs)
  from Cons.prems obtain s1 where s1: "q_step ev s = Some s1" and ex: "q_exec evs s1 = Some s'"
    by (auto split: option.splits)
  from Cons.prems(1) s1 have "q_inv s1" by (rule q_step_inv)
  from Cons.IH [OF this ex] q_step_decreases [OF Cons.prems(1) s1] show ?case by simp
qed

lemma q_exec_append:
  "q_exec (xs @ ys) s = (case q_exec xs s of None \<Rightarrow> None | Some s' \<Rightarrow> q_exec ys s')"
  by (induction xs arbitrary: s) (auto split: option.splits)

lemma q_producer_blocked:
  "q_producer_step now s = None \<Longrightarrow>
     q_prod s = QP_Done \<or> (\<exists>i w. q_prod s = QP_Put i w \<and> queue_full (q_self s))"
  by (cases "q_prod s") (auto simp: q_producer_step_def split: if_splits option.splits)

lemma q_consumer_blocked:
  "q_consumer_step now s = None \<Longrightarrow>
     q_cons s = QC_Done \<or> (\<exists>c w. q_cons s = QC_Get c w \<and> shared_queue (q_self s) = [])"
  by (cases "q_cons s") (auto simp: q_consumer_step_def split: if_splits option.splits list.splits)

lemma length_nonsentinel_take: "length (nonsentinel (take i xs)) \<le> length (nonsentinel xs)"
proof -
  have "nonsentinel xs = nonsentinel (take i xs) @ nonsentinel (drop i xs)"
    unfolding nonsentinel_def by (metis append_take_drop_id filter_append)
  then show ?thesis by simp
qed

lemma q_no_deadlock:
  assumes inv: "q_inv s" and bal: "q_balanced s"
  shows "\<not> q_deadlocked s"
proof
  assume d: "q_deadlocked s"
  let ?src = "source_container (q_self s)"
  from d have nf: "\<not> q_finished s" and p: "q_producer_step 0 s = None"
    and c: "q_consumer_step 0 s = None"
    by (simp_all add: q_deadlocked_def)
  from inv have cap: "0 < capacity (q_self s)" by (simp add: q_inv_def)
  from q_producer_blocked [OF p] q_consumer_blocked [OF c] nf
  consider (get) c' w where "q_prod s = QP_Done" "q_cons s = QC_Get c' w" "shared_queue (q_self s) = []"
    | (put) i w where "q_prod s = QP_Put i w" "queue_full (q_self s)" "q_cons s = QC_Done"
    | (both) i w c' w' where "q_prod s = QP_Put i w" "queue_full (q_self s)"
        "q_cons s = QC_Get c' w'" "shared_queue (q_self s) = []"
    by (auto simp: q_finished_def)
  then show False
  proof cases
    case get
    with inv bal show False by (auto simp: q_inv_def q_balanced_def)
  next
    case put
    with inv have a: "destination_container (q_self s) @ shared_queue (q_self s) =
        nonsentinel (take i ?src)"
      and k: "q_total_items s \<le> int (length (destination_container (q_self s)))"
      by (auto simp: q_inv_def)
    from a have "length (destination_container (q_self s)) + length (shared_queue (q_self s))
        = length (nonsentinel (take i ?src))"
      by (metis length_append)
    with length_nonsentinel_take [of i ?src] k bal put(2) cap show False
      by (simp add: q_balanced_def queue_full_def)
  next
    case both
    with cap show False by (simp add: queue_full_def)
  qed
qed

lemma q_step_balanced: "q_step ev s = Some s' \<Longrightarrow> q_balanced s' = q_balanced s"
  by (cases "fst ev")
     (auto simp: q_step_def q_balanced_def dest!: q_producer_step_frame q_consumer_step_frame)

lemma q_can_finish:
  assumes "q_inv s" and "q_balanced s"
  shows "\<exists>evs s'. q_exec evs s = Some s' \<and> q_finished s'"
  using assms
proof (induction "q_measure s" arbitrary: s rule: less_induct)
  case less
  show ?case
  proof (cases "q_finished s")
    case True
    then have "q_exec [] s = Some s \<and> q_finished s" by simp
    then show ?thesis by blast
  next
    case False
    with q_no_deadlock [OF less.prems]
    have "q_producer_step 0 s \<noteq> None \<or> q_consumer_step 0 s \<noteq> None"
      by (simp add: q_deadlocked_def)
    then have "q_step (Producer, 0) s \<noteq> None \<or> q_step (Consumer, 0) s \<noteq> None"
      by (simp add: q_step_def)
    then obtain t s1 where st: "q_step (t, 0) s = Some s1" by blast
    from less.prems(1) st have i1: "q_inv s1" by (rule q_step_inv)
    from q_step_balanced [OF st] less.prems(2) have b1: "q_balanced s1" by simp
    from q_step_decreases [OF less.prems(1) st] have "q_measure s1 < q_measure s" .
    from less.hyps [OF this i1 b1] obtain evs s' where "q_exec evs s1 = Some s'" "q_finished s'"
      by blast
    with st have "q_exec ((t, 0) # evs) s = Some s' \<and> q_finished s'" by simp
    then show ?thesis by blast
  qed
qed

lemma notify_consumer_live [simp]:
  "\<not> wc_waiting (wn_cons (notify_consumer s))"
  "wc_will_notify (wn_cons (notify_consumer s)) = wc_will_notify (wn_cons s)"
  by (cases "wn_cons s"; simp add: notify_consumer_def)+

lemma notify_producer_live [simp]:
  "\<not> wp_waiting (wn_prod (notify_producer s))"
  "wp_will_notify (wn_prod (notify_producer s)) = wp_will_notify (wn_prod s)"
  by (cases "wn_prod s"; simp add: notify_producer_def)+

lemma wc_waiting_not_holds: "wc_waiting c \<Longrightarrow> \<not> wc_holds c \<and> \<not> wc_will_notify c"
  by (cases c) simp_all

lemma wp_waiting_not_holds: "wp_waiting p \<Longrightarrow> \<not> wp_holds p \<and> \<not> wp_will_notify p"
  by (cases p) simp_all

lemma wn_producer_step_live:
  assumes "wn_inv s" and "wn_live s" and "wn_producer_step now s = Some s'"
  shows "wn_live s'"
proof (cases "wn_prod s")
  case (WP_Loop i)
  with assms show ?thesis
    by (auto simp: wn_live_def wn_producer_step_def split: if_splits option.splits)
next
  case (WP_Release i)
  with assms show ?thesis
    by (cases "wn_cons s") (auto simp: wn_live_def wn_inv_def wn_producer_step_def)
next
  case WP_FinRelease
  with assms show ?thesis
    by (cases "wn_cons s") (auto simp: wn_live_def wn_inv_def wn_producer_step_def)
qed (use assms in \<open>auto simp: wn_live_def wn_producer_step_def wn_inv_def split: if_splits\<close>)

lemma wn_consumer_step_live:
  assumes "wn_inv s" and "wn_live s" and "wn_consumer_step now s = Some s'"
  shows "wn_live s'"
proof (cases "wn_cons s")
  case (WC_Pop c)
  with assms show ?thesis
    by (auto simp: wn_live_def wn_consumer_step_def split: list.splits)
next
  case (WC_Check c x)
  with assms nonsentinel_no_None show ?thesis
    by (cases x) (auto simp: wn_live_def wn_inv_def wn_consumer_step_def)
next
  case (WC_Release c)
  with assms show ?thesis
    by (cases "wn_prod s") (auto simp: wn_live_def wn_inv_def wn_consumer_step_def)
next
  case (WC_Break c)
  with assms show ?thesis
    by (cases "wn_prod s") (auto simp: wn_live_def wn_inv_def wn_consumer_step_def split: if_splits)
qed (use assms in \<open>auto simp: wn_live_def wn_consumer_step_def wn_inv_def split: if_splits\<close>)

lemma notify_consumer_rank:
  "wc_rank t (wn_cons (notify_consumer s)) \<le> wc_rank t (wn_cons s) + 2"
  by (cases "wn_cons s") (simp_all add: notify_consumer_def)

lemma notify_producer_rank:
  "wp_rank n (wn_prod (notify_producer s)) \<le> wp_rank n (wn_prod s) + 2"
  by (cases "wn_prod s") (simp_all add: notify_producer_def)

lemma wn_producer_step_decreases:
  assumes "wn_inv s" and "wn_producer_step now s = Some s'"
  shows "wn_measure s' < wn_measure s"
proof (cases "wn_prod s")
  case (WP_Loop i)
  with assms show ?thesis
    by (auto simp: wn_measure_def wn_producer_step_def wn_inv_def Suc_diff_Suc
        split: if_splits option.splits)
next
  case (WP_Notify i)
  with assms notify_consumer_rank [of "wn_total_items s" s] show ?thesis
    by (auto simp: wn_measure_def wn_producer_step_def)
next
  case WP_FinNotify
  with assms notify_consumer_rank [of "wn_total_items s" s] show ?thesis
    by (auto simp: wn_measure_def wn_producer_step_def)
next
  case (WP_Release i)
  with assms show ?thesis
    by (auto simp: wn_measure_def wn_producer_step_def wn_inv_def Suc_diff_Suc)
qed (use assms in \<open>auto simp: wn_measure_def wn_producer_step_def wn_inv_def split: if_splits\<close>)

lemma wn_consumer_step_decreases:
  assumes "wn_inv s" and "wn_consumer_step now s = Some s'"
  shows "wn_measure s' < wn_measure s"
proof (cases "wn_cons s")
  case (WC_Check c x)
  with assms nonsentinel_no_None show ?thesis
    by (cases x) (auto simp: wn_measure_def wn_consumer_step_def wn_inv_def)
next
  case (WC_Notify c)
  with assms notify_producer_rank [of "length (source_container (wn_self s))" s] show ?thesis
    by (auto simp: wn_measure_def wn_consumer_step_def)
qed (use assms in \<open>auto simp: wn_measure_def wn_consumer_step_def wn_inv_def
       split: if_splits list.splits\<close>)

lemma wn_step_decreases: "wn_inv s \<Longrightarrow> wn_step ev s = Some s' \<Longrightarrow> wn_measure s' < wn_measure s"
  by (cases "fst ev")
     (auto simp: wn_step_def dest: wn_producer_step_decreases wn_consumer_step_decreases)

lemma wn_step_live: "wn_inv s \<Longrightarrow> wn_live s \<Longrightarrow> wn_step ev s = Some s' \<Longrightarrow> wn_live s'"
  by (cases "fst ev")
     (auto simp: wn_step_def dest: wn_producer_step_live wn_consumer_step_live)

lemma wn_exec_length:
  "wn_inv s \<Longrightarrow> wn_exec evs s = Some s' \<Longrightarrow> length evs + wn_measure s' \<le> wn_measure s"
proof (induction evs arbitrary: s)
  case Nil
  then show ?case by simp
next
  case (Cons ev evs)
  from Cons.prems obtain s1 where s1: "wn_step ev s = Some s1" and ex: "wn_exec evs s1 = Some s'"
    by (auto split: option.splits)
  from Cons.prems(1) s1 have "wn_inv s1" by (rule wn_step_inv)
  from Cons.IH [OF this ex] wn_step_decreases [OF Cons.prems(1) s1] show ?case by simp
qed

lemma wn_exec_live:
  "wn_inv s \<Longrightarrow> wn_live s \<Longrightarrow> wn_exec evs s = Some s' \<Longrightarrow> wn_live s'"
proof (induction evs arbitrary: s)
  case Nil
  then show ?case by simp
next
  case (Cons ev evs)
  from Cons.prems obtain s1 where s1: "wn_step ev s = Some s1" and ex: "wn_exec evs s1 = Some s'"
    by (auto split: option.splits)
  from Cons.prems(1) s1 have i1: "wn_inv s1" by (rule wn_step_inv)
  from Cons.prems(1,2) s1 have l1: "wn_live s1" by (rule wn_step_live)
  from Cons.IH [OF i1 l1 ex] show ?case .
qed

lemma wn_exec_append:
  "wn_exec (xs @ ys) s = (case wn_exec xs s of None \<Rightarrow> None | Some s' \<Rightarrow> wn_exec ys s')"
  by (induction xs arbitrary: s) (auto split: option.splits)

lemma wn_producer_blocked:
  "wn_producer_step now s = None \<Longrightarrow>
     wn_prod s = WP_Done \<or> wp_waiting (wn_prod s)
     \<or> (wn_owner s \<noteq> None \<and> \<not> wp_holds (wn_prod s))"
  by (cases "wn_prod s") (auto simp: wn_producer_step_def split: if_splits option.splits)

lemma wn_consumer_blocked:
  "wn_consumer_step now s = None \<Longrightarrow>
     wn_cons s = WC_Done \<or> wc_waiting (wn_cons s)
     \<or> (wn_owner s \<noteq> None \<and> \<not> wc_holds (wn_cons s))"
  by (cases "wn_cons s")
     (auto simp: wn_consumer_step_def split: if_splits option.splits list.splits)

lemma wn_no_deadlock:
  assumes inv: "wn_inv s" and live: "wn_live s" and en: "wn_enough s"
  shows "\<not> wn_deadlocked s"
proof
  assume d: "wn_deadlocked s"
  let ?src = "source_container (wn_self s)"
  let ?q = "shared_queue (wn_self s)"
  from d have nf: "\<not> wn_finished s" and p: "wn_producer_step 0 s = None"
    and c: "wn_consumer_step 0 s = None"
    by (simp_all add: wn_deadlocked_def)
  from inv have cap: "0 < capacity (wn_self s)"
    and own: "wn_owner s = (if wp_holds (wn_prod s) then Some Producer
                       else if wc_holds (wn_cons s) then Some Consumer else None)"
    unfolding wn_inv_def by blast+
  note pb = wn_producer_blocked [OF p] and cb = wn_consumer_blocked [OF c]
  have free: "wn_owner s = None"
  proof (rule ccontr)
    assume "wn_owner s \<noteq> None"
    with own have "wp_holds (wn_prod s) \<or> wc_holds (wn_cons s)" by (auto split: if_splits)
    with pb cb wp_waiting_not_holds [of "wn_prod s"] wc_waiting_not_holds [of "wn_cons s"]
    show False using own by (auto split: if_splits)
  qed
  with pb cb nf
  consider (ww) "wp_waiting (wn_prod s)" "wc_waiting (wn_cons s)"
    | (wd) "wp_waiting (wn_prod s)" "wn_cons s = WC_Done"
    | (dw) "wn_prod s = WP_Done" "wc_waiting (wn_cons s)"
    by (auto simp: wn_finished_def)
  then show False
  proof cases
    case ww
    with live cap wp_waiting_not_holds [of "wn_prod s"] wc_waiting_not_holds [of "wn_cons s"]
    show False by (auto simp: wn_live_def)
  next
    case wd
    with live have full: "int (length ?q) = capacity (wn_self s)" by (simp add: wn_live_def)
    from wd(1) obtain i w where pw: "wn_prod s = WP_Waiting i w" by (cases "wn_prod s") simp_all
    from inv wd(2) pw have a: "destination_container (wn_self s) @ ?q = nonsentinel (take i ?src)"
      and k: "wn_total_items s \<le> int (length (destination_container (wn_self s)))
              \<or> length ?q = 0"
      by (auto simp: wn_inv_def)
    from a have "length (destination_container (wn_self s)) + length ?q
        = length (nonsentinel (take i ?src))"
      by (metis length_append)
    with length_nonsentinel_take [of i ?src] k en full cap show False
      by (simp add: wn_enough_def)
  next
    case dw
    with live inv show False by (auto simp: wn_live_def wn_inv_def)
  qed
qed

lemma wn_step_enough: "wn_step ev s = Some s' \<Longrightarrow> wn_enough s' = wn_enough s"
  by (cases "fst ev")
     (auto simp: wn_step_def wn_enough_def dest!: wn_producer_step_frame wn_consumer_step_frame)

lemma wn_can_finish:
  assumes "wn_inv s" and "wn_live s" and "wn_enough s"
  shows "\<exists>evs s'. wn_exec evs s = Some s' \<and> wn_finished s'"
  using assms
proof (induction "wn_measure s" arbitrary: s rule: less_induct)
  case less
  show ?case
  proof (cases "wn_finished s")
    case True
    then have "wn_exec [] s = Some s \<and> wn_finished s" by simp
    then show ?thesis by blast
  next
    case False
    with wn_no_deadlock [OF less.prems]
    have "wn_producer_step 0 s \<noteq> None \<or> wn_consumer_step 0 s \<noteq> None"
      by (simp add: wn_deadlocked_def)
    then have "wn_step (Producer, 0) s \<noteq> None \<or> wn_step (Consumer, 0) s \<noteq> None"
      by (simp add: wn_step_def)
    then obtain t s1 where st: "wn_step (t, 0) s = Some s1" by blast
    from less.prems(1) st have i1: "wn_inv s1" by (rule wn_step_inv)
    from less.prems(1,2) st have l1: "wn_live s1" by (rule wn_step_live)
    from wn_step_enough [OF st] less.prems(3) have b1: "wn_enough s1" by simp
    from wn_step_decreases [OF less.prems(1) st] have "wn_measure s1 < wn_measure s" .
    from less.hyps [OF this i1 l1 b1] obtain evs s' where "wn_exec evs s1 = Some s'" "wn_finished s'"
      by blast
    with st have "wn_exec ((t, 0) # evs) s = Some s' \<and> wn_finished s'" by simp
    then show ?thesis by blast
  qed
qed

lemma q_exec_balanced: "q_exec evs s = Some s' \<Longrightarrow> q_balanced s' = q_balanced s"
  using q_exec_frame [of evs s s'] by (simp add: q_balanced_def)

lemma wn_exec_enough: "wn_exec evs s = Some s' \<Longrightarrow> wn_enough s' = wn_enough s"
  using wn_exec_frame [of evs s s'] by (simp add: wn_enough_def)

lemma wn_live_start: "wn_live (wn_start total_items self)"
  by (simp add: wn_live_def wn_start_def)

lemma q_inv_start_reset:
  assumes "0 < capacity self" and "shared_queue self = []"
  shows "q_inv (q_start total_items (reset_statistics self))"
  using assms by (simp add: q_inv_def q_start_def reset_statistics_def Statistics_new_def nonsentinel_def)

lemma wn_inv_start_reset:
  assumes "0 < capacity self" and "shared_queue self = []"
  shows "wn_inv (wn_start total_items (reset_statistics self))"
  using assms by (simp add: wn_inv_def wn_start_def reset_statistics_def Statistics_new_def nonsentinel_def)

text \<open>
  Every state that a run reaches, along whatever schedule, is not a deadlock, the
  schedule is no longer than a bound linear in \<open>item_count\<close>, and the schedule can
  be continued to one on which \<open>run\<close> returns.
\<close>

theorem q_run_completes:
  assumes "0 < capacity self" and "shared_queue self = []"
    and "q_during item_count t0 evs self = Some s"
  shows "\<not> q_deadlocked s \<and> length evs \<le> 14 * nat item_count + 4
    \<and> (\<exists>evs' self'. q_run item_count t0 (evs @ evs') t1 self = Returned self')"
proof -
  define self1 where "self1 = self\<lparr>source_container := map Some [1..item_count]\<rparr>"
  define s0 where "s0 = q_start item_count
      (stats_update (start_time_update (\<lambda>_. t0)) (reset_statistics self1))"
  from assms(3) have n: "0 \<le> item_count" and ex: "q_exec evs s0 = Some s"
    by (auto simp: q_during_def initialize_source_def s0_def self1_def split: if_splits)
  from assms(1,2) have i0: "q_inv s0"
    unfolding s0_def by (intro q_inv_start) (simp_all add: self1_def)
  from i0 ex have inv: "q_inv s" by (rule q_exec_inv)
  from n have b0: "q_balanced s0"
    by (simp add: q_balanced_def s0_def self1_def q_start_def reset_statistics_def)
  with q_exec_balanced [OF ex] have bal: "q_balanced s" by simp
  from n have "q_measure s0 = 14 * nat item_count + 4"
    by (simp add: q_measure_def s0_def self1_def q_start_def reset_statistics_def)
  with q_exec_length [OF i0 ex] have len: "length evs \<le> 14 * nat item_count + 4" by simp
  from q_can_finish [OF inv bal] obtain evs' s' where
    ex': "q_exec evs' s = Some s'" and fin: "q_finished s'" by blast
  from ex ex' have "q_exec (evs @ evs') s0 = Some s'" by (simp add: q_exec_append)
  with fin n have "q_run item_count t0 (evs @ evs') t1 self =
      Returned (stats_update (end_time_update (\<lambda>_. t1)) (q_self s'))"
    by (simp add: q_run_def initialize_source_def s0_def self1_def)
  then have "\<exists>evs' self'. q_run item_count t0 (evs @ evs') t1 self = Returned self'" by blast
  with q_no_deadlock [OF inv bal] len show ?thesis by simp
qed

theorem wn_run_completes:
  assumes "0 < capacity self" and "shared_queue self = []"
    and "wn_during item_count t0 evs self = Some s"
  shows "\<not> wn_deadlocked s \<and> length evs \<le> 40 * nat item_count + 16
    \<and> (\<exists>evs' self'. wn_run item_count t0 (evs @ evs') t1 self = Returned self')"
proof -
  define self1 where "self1 = self\<lparr>source_container := map Some [1..item_count]\<rparr>"
  define s0 where "s0 = wn_start item_count
      (stats_update (start_time_update (\<lambda>_. t0)) (reset_statistics self1))"
  from assms(3) have n: "0 \<le> item_count" and ex: "wn_exec evs s0 = Some s"
    by (auto simp: wn_during_def initialize_source_def s0_def self1_def split: if_splits)
  from assms(1,2) have i0: "wn_inv s0"
    unfolding s0_def by (intro wn_inv_start) (simp_all add: self1_def)
  from i0 ex have inv: "wn_inv s" by (rule wn_exec_inv)
  have l0: "wn_live s0" unfolding s0_def by (rule wn_live_start)
  from i0 l0 ex have live: "wn_live s" by (rule wn_exec_live)
  from n have b0: "wn_enough s0"
    by (simp add: wn_enough_def s0_def self1_def wn_start_def reset_statistics_def)
  with wn_exec_enough [OF ex] have en: "wn_enough s" by simp
  from n have "wn_measure s0 = 40 * nat item_count + 16"
    by (simp add: wn_measure_def s0_def self1_def wn_start_def reset_statistics_def)
  with wn_exec_length [OF i0 ex] have len: "length evs \<le> 40 * nat item_count + 16" by simp
  from wn_can_finish [OF inv live en] obtain evs' s' where
    ex': "wn_exec evs' s = Some s'" and fin: "wn_finished s'" by blast
  from ex ex' have "wn_exec (evs @ evs') s0 = Some s'" by (simp add: wn_exec_append)
  with fin n have "wn_run item_count t0 (evs @ evs') t1 self =
      Returned (stats_update (end_time_update (\<lambda>_. t1)) (wn_self s'))"
    by (simp add: wn_run_def initialize_source_def s0_def self1_def)
  then have "\<exists>evs' self'. wn_run item_count t0 (evs @ evs') t1 self = Returned self'" by blast
  with wn_no_deadlock [OF inv live en] len show ?thesis by simp
qed

text \<open>
  The wait/notify consumer with a target at or above the number of items that the
  producer puts (that are not sentinels): no reachable state is a deadlock, and both
  threads can return from each.
\<close>

lemma wn_consumer_never_blocks:
  assumes "0 < capacity self" and "shared_queue self = []"
    and "int (length (nonsentinel (source_container self))) \<le> total_items"
    and "wn_exec evs (wn_start total_items (reset_statistics self)) = Some s"
  shows "\<not> wn_deadlocked s \<and> (\<exists>evs' s'. wn_exec evs' s = Some s' \<and> wn_finished s')"
proof -
  let ?s0 = "wn_start total_items (reset_statistics self)"
  from assms(1,2) have i0: "wn_inv ?s0" by (rule wn_inv_start_reset)
  from i0 assms(4) have inv: "wn_inv s" by (rule wn_exec_inv)
  from i0 wn_live_start assms(4) have live: "wn_live s" by (rule wn_exec_live)
  from assms(3) have "wn_enough ?s0"
    by (simp add: wn_enough_def wn_start_def reset_statistics_def)
  with wn_exec_enough [OF assms(4)] have en: "wn_enough s" by simp
  from wn_no_deadlock [OF inv live en] wn_can_finish [OF inv live en] show ?thesis by blast
qed

section \<open>Runs\<close>

text \<open>
  C1. For every capacity \<open>> 0\<close> and every item count, after \<open>run(item_count)\<close> has
  completed (both threads returned, along any schedule), \<open>get_source_container()\<close>
  equals \<open>get_destination_container()\<close>, and both are \<open>[1..item_count]\<close> in order, in
  the queue-based and in the wait/notify implementation. The object is one whose
  shared queue is empty, as the constructor (\<open>init_idle\<close>) and every completed run
  (\<open>q_run_returned\<close>, \<open>wn_run_returned\<close>) leave it. That a run can complete from every
  state it reaches is \<open>q_run_completes\<close> and \<open>wn_run_completes\<close>.
\<close>

theorem run_source_equals_destination:
  assumes "0 < capacity self" and "shared_queue self = []"
  shows "(q_run item_count t0 evs t1 self = Returned self' \<longrightarrow>
            fst (get_source_container self') = fst (get_destination_container self')
            \<and> fst (get_destination_container self') = map Some [1..item_count])
       \<and> (wn_run item_count t0' evs' t1' self = Returned self'' \<longrightarrow>
            fst (get_source_container self'') = fst (get_destination_container self'')
            \<and> fst (get_destination_container self'') = map Some [1..item_count])"
  using q_run_returned [OF assms, of item_count t0 evs t1 self']
    wn_run_returned [OF assms, of item_count t0' evs' t1' self'']
  by (simp add: get_source_container_def get_destination_container_def)

theorem run_source_equals_destination_witness:
  "(case q_run 2 0 (replicate 8 (Producer, 1) @ replicate 8 (Consumer, 2)
                    @ replicate 6 (Producer, 3) @ replicate 6 (Consumer, 4)) 5
           \<lparr>shared_queue = [], source_container = [], destination_container = [],
            capacity = 1, stats = Statistics_new, producer_finished = False\<rparr> of
      Returned r \<Rightarrow> fst (get_source_container r) = fst (get_destination_container r)
                    \<and> fst (get_destination_container r) = [Some 1, Some 2]
    | _ \<Rightarrow> False)
   \<and> (case wn_run 2 0 (replicate 13 (Producer, 1) @ replicate 12 (Consumer, 2)
                    @ replicate 13 (Producer, 3) @ replicate 12 (Consumer, 4)) 5
           \<lparr>shared_queue = [], source_container = [], destination_container = [],
            capacity = 1, stats = Statistics_new, producer_finished = False\<rparr> of
      Returned r \<Rightarrow> fst (get_source_container r) = fst (get_destination_container r)
                    \<and> fst (get_destination_container r) = [Some 1, Some 2]
    | _ \<Rightarrow> False)"
proof -
  let ?self = "\<lparr>shared_queue = [], source_container = [], destination_container = [],
            capacity = 1, stats = Statistics_new, producer_finished = False\<rparr>"
  let ?q = "q_run 2 0 (replicate 8 (Producer, 1) @ replicate 8 (Consumer, 2)
                    @ replicate 6 (Producer, 3) @ replicate 6 (Consumer, 4)) 5 ?self"
  let ?w = "wn_run 2 0 (replicate 13 (Producer, 1) @ replicate 12 (Consumer, 2)
                    @ replicate 13 (Producer, 3) @ replicate 12 (Consumer, 4)) 5 ?self"
  have "case ?q of Returned r \<Rightarrow> True | _ \<Rightarrow> False" by code_simp
  then obtain a where a: "?q = Returned a" by (cases ?q) simp_all
  have "case ?w of Returned r \<Rightarrow> True | _ \<Rightarrow> False" by code_simp
  then obtain b where b: "?w = Returned b" by (cases ?w) simp_all
  have u: "[1..2] = [1, 2::int]" by code_simp
  from run_source_equals_destination [of ?self 2 0 _ 5 a 0 _ 5 b] a b u
  show ?thesis by simp
qed

text \<open>
  C2. The two implementations are interchangeable. For every capacity \<open>> 0\<close> and every
  \<open>item_count \<ge> 0\<close>, \<open>ProducerConsumer.run(item_count)\<close> and
  \<open>ProducerConsumerWaitNotify.run(item_count)\<close> both complete: each has a schedule on
  which it returns, no state that either reaches is a deadlock, every schedule that
  either has started continues to one on which it returns, and neither raises. The
  final states are observably equal, whatever the schedules and the capacities: equal
  destination sequences, equal \<open>items_produced\<close>, equal \<open>items_consumed\<close> (and equal
  sources).
\<close>

theorem implementations_interchangeable:
  assumes "0 < capacity a" and "shared_queue a = []"
    and "0 < capacity b" and "shared_queue b = []"
    and "0 \<le> item_count"
  shows "(\<exists>evs a'. q_run item_count t0 evs t1 a = Returned a')
    \<and> (\<exists>evs b'. wn_run item_count t0' evs t1' b = Returned b')
    \<and> (q_during item_count t0 qs a = Some s \<longrightarrow>
          \<not> q_deadlocked s
          \<and> (\<exists>evs a'. q_run item_count t0 (qs @ evs) t1 a = Returned a'))
    \<and> (wn_during item_count t0' ws b = Some w \<longrightarrow>
          \<not> wn_deadlocked w
          \<and> (\<exists>evs b'. wn_run item_count t0' (ws @ evs) t1' b = Returned b'))
    \<and> q_run item_count t0 qevs t1 a \<noteq> Raised e x
    \<and> wn_run item_count t0' wevs t1' b \<noteq> Raised e x
    \<and> (q_run item_count t0 qevs t1 a = Returned a'
          \<and> wn_run item_count t0' wevs t1' b = Returned b' \<longrightarrow>
          fst (get_destination_container a') = fst (get_destination_container b')
          \<and> items_produced (stats a') = items_produced (stats b')
          \<and> items_consumed (stats a') = items_consumed (stats b')
          \<and> fst (get_source_container a') = fst (get_source_container b'))"
proof -
  from assms(5) obtain q0 where q0: "q_during item_count t0 [] a = Some q0"
    by (simp add: q_during_def initialize_source_def)
  from q_run_completes [OF assms(1,2) q0, of t1]
  have c1: "\<exists>evs a'. q_run item_count t0 evs t1 a = Returned a'" by auto
  from assms(5) obtain w0 where w0: "wn_during item_count t0' [] b = Some w0"
    by (simp add: wn_during_def initialize_source_def)
  from wn_run_completes [OF assms(3,4) w0, of t1']
  have c2: "\<exists>evs b'. wn_run item_count t0' evs t1' b = Returned b'" by auto
  have c3: "q_during item_count t0 qs a = Some s \<longrightarrow>
          \<not> q_deadlocked s
          \<and> (\<exists>evs a'. q_run item_count t0 (qs @ evs) t1 a = Returned a')"
    using q_run_completes [OF assms(1,2), of item_count t0 qs s t1] by simp
  have c4: "wn_during item_count t0' ws b = Some w \<longrightarrow>
          \<not> wn_deadlocked w
          \<and> (\<exists>evs b'. wn_run item_count t0' (ws @ evs) t1' b = Returned b')"
    using wn_run_completes [OF assms(3,4), of item_count t0' ws w t1'] by simp
  from assms(5) have c5: "q_run item_count t0 qevs t1 a \<noteq> Raised e x"
    by (simp add: q_run_def initialize_source_def split: option.splits)
  from assms(5) have c6: "wn_run item_count t0' wevs t1' b \<noteq> Raised e x"
    by (simp add: wn_run_def initialize_source_def split: option.splits)
  have c7: "q_run item_count t0 qevs t1 a = Returned a'
          \<and> wn_run item_count t0' wevs t1' b = Returned b' \<longrightarrow>
          fst (get_destination_container a') = fst (get_destination_container b')
          \<and> items_produced (stats a') = items_produced (stats b')
          \<and> items_consumed (stats a') = items_consumed (stats b')
          \<and> fst (get_source_container a') = fst (get_source_container b')"
  proof
    assume r: "q_run item_count t0 qevs t1 a = Returned a'
          \<and> wn_run item_count t0' wevs t1' b = Returned b'"
    then have ra: "q_run item_count t0 qevs t1 a = Returned a'"
      and rb: "wn_run item_count t0' wevs t1' b = Returned b'" by simp_all
    from q_run_returned [OF assms(1,2) ra] wn_run_returned [OF assms(3,4) rb]
    show "fst (get_destination_container a') = fst (get_destination_container b')
          \<and> items_produced (stats a') = items_produced (stats b')
          \<and> items_consumed (stats a') = items_consumed (stats b')
          \<and> fst (get_source_container a') = fst (get_source_container b')"
      by (simp add: get_source_container_def get_destination_container_def)
  qed
  from c1 c2 c3 c4 c5 c6 c7 show ?thesis by (intro conjI)
qed

theorem implementations_interchangeable_witness:
  "(\<exists>evs a'. q_run 2 0 evs 5
        \<lparr>shared_queue = [], source_container = [], destination_container = [],
         capacity = 1, stats = Statistics_new, producer_finished = False\<rparr> = Returned a')
   \<and> (\<exists>evs b'. wn_run 2 0 evs 5
        \<lparr>shared_queue = [], source_container = [], destination_container = [],
         capacity = 2, stats = Statistics_new, producer_finished = False\<rparr> = Returned b')
   \<and> (case q_during 2 0 (replicate 8 (Producer, 1))
           \<lparr>shared_queue = [], source_container = [], destination_container = [],
            capacity = 1, stats = Statistics_new, producer_finished = False\<rparr> of
        Some s \<Rightarrow> \<not> q_deadlocked s
          \<and> (\<exists>evs a'. q_run 2 0 (replicate 8 (Producer, 1) @ evs) 5
                \<lparr>shared_queue = [], source_container = [], destination_container = [],
                 capacity = 1, stats = Statistics_new, producer_finished = False\<rparr> = Returned a')
      | None \<Rightarrow> False)
   \<and> (case wn_during 2 0 (replicate 4 (Consumer, 1))
           \<lparr>shared_queue = [], source_container = [], destination_container = [],
            capacity = 2, stats = Statistics_new, producer_finished = False\<rparr> of
        Some w \<Rightarrow> \<not> wn_deadlocked w
          \<and> (\<exists>evs b'. wn_run 2 0 (replicate 4 (Consumer, 1) @ evs) 5
                \<lparr>shared_queue = [], source_container = [], destination_container = [],
                 capacity = 2, stats = Statistics_new, producer_finished = False\<rparr> = Returned b')
      | None \<Rightarrow> False)
   \<and> (case (q_run 2 0 (replicate 8 (Producer, 1) @ replicate 8 (Consumer, 2)
                    @ replicate 6 (Producer, 3) @ replicate 6 (Consumer, 4)) 5
           \<lparr>shared_queue = [], source_container = [], destination_container = [],
            capacity = 1, stats = Statistics_new, producer_finished = False\<rparr>,
          wn_run 2 0 (replicate 24 (Producer, 1) @ replicate 24 (Consumer, 2)) 5
           \<lparr>shared_queue = [], source_container = [], destination_container = [],
            capacity = 2, stats = Statistics_new, producer_finished = False\<rparr>) of
      (Returned a, Returned b) \<Rightarrow>
         fst (get_destination_container a) = fst (get_destination_container b)
         \<and> items_produced (stats a) = items_produced (stats b)
         \<and> items_consumed (stats a) = items_consumed (stats b)
         \<and> fst (get_source_container a) = fst (get_source_container b)
    | _ \<Rightarrow> False)"
proof -
  let ?a = "\<lparr>shared_queue = [], source_container = [], destination_container = [],
            capacity = 1, stats = Statistics_new, producer_finished = False\<rparr>"
  let ?b = "\<lparr>shared_queue = [], source_container = [], destination_container = [],
            capacity = 2, stats = Statistics_new, producer_finished = False\<rparr>"
  let ?qs = "replicate 8 (Producer, 1)"
  let ?ws = "replicate 4 (Consumer, 1)"
  let ?qe = "replicate 8 (Producer, 1) @ replicate 8 (Consumer, 2)
                    @ replicate 6 (Producer, 3) @ replicate 6 (Consumer, 4)"
  let ?we = "replicate 24 (Producer, 1) @ replicate 24 (Consumer, 2)"
  let ?q = "q_run 2 0 ?qe 5 ?a"
  let ?w = "wn_run 2 0 ?we 5 ?b"
  have "q_during 2 0 ?qs ?a \<noteq> None" by code_simp
  then obtain s where s: "q_during 2 0 ?qs ?a = Some s" by blast
  have "wn_during 2 0 ?ws ?b \<noteq> None" by code_simp
  then obtain w where w: "wn_during 2 0 ?ws ?b = Some w" by blast
  have "case ?q of Returned r \<Rightarrow> True | _ \<Rightarrow> False" by code_simp
  then obtain a where a: "?q = Returned a" by (cases ?q) simp_all
  have "case ?w of Returned r \<Rightarrow> True | _ \<Rightarrow> False" by code_simp
  then obtain b where b: "?w = Returned b" by (cases ?w) simp_all
  from implementations_interchangeable [of ?a ?b 2 0 5 0 5 ?qs s ?ws w ?qe _ _ ?we a b] s w a b
  show ?thesis by simp
qed

text \<open>
  C7. For every completed run, the recorded high-water mark \<open>stats.max_queue_size\<close>
  is at most the capacity, in both implementations.
\<close>

theorem max_queue_size_within_capacity:
  assumes "0 < capacity self" and "shared_queue self = []"
  shows "(q_run item_count t0 evs t1 self = Returned self' \<longrightarrow>
            max_queue_size (stats self') \<le> capacity self')
       \<and> (wn_run item_count t0' evs' t1' self = Returned self'' \<longrightarrow>
            max_queue_size (stats self'') \<le> capacity self'')"
  using q_run_returned [OF assms, of item_count t0 evs t1 self']
    wn_run_returned [OF assms, of item_count t0' evs' t1' self'']
  by simp

theorem max_queue_size_within_capacity_witness:
  "(case q_run 2 0 (replicate 8 (Producer, 1) @ replicate 8 (Consumer, 2)
                    @ replicate 6 (Producer, 3) @ replicate 6 (Consumer, 4)) 5
           \<lparr>shared_queue = [], source_container = [], destination_container = [],
            capacity = 1, stats = Statistics_new, producer_finished = False\<rparr> of
      Returned r \<Rightarrow> max_queue_size (stats r) \<le> capacity r
    | _ \<Rightarrow> False)
   \<and> (case wn_run 2 0 (replicate 13 (Producer, 1) @ replicate 12 (Consumer, 2)
                    @ replicate 13 (Producer, 3) @ replicate 12 (Consumer, 4)) 5
           \<lparr>shared_queue = [], source_container = [], destination_container = [],
            capacity = 1, stats = Statistics_new, producer_finished = False\<rparr> of
      Returned r \<Rightarrow> max_queue_size (stats r) \<le> capacity r
    | _ \<Rightarrow> False)"
proof -
  let ?self = "\<lparr>shared_queue = [], source_container = [], destination_container = [],
            capacity = 1, stats = Statistics_new, producer_finished = False\<rparr>"
  let ?q = "q_run 2 0 (replicate 8 (Producer, 1) @ replicate 8 (Consumer, 2)
                    @ replicate 6 (Producer, 3) @ replicate 6 (Consumer, 4)) 5 ?self"
  let ?w = "wn_run 2 0 (replicate 13 (Producer, 1) @ replicate 12 (Consumer, 2)
                    @ replicate 13 (Producer, 3) @ replicate 12 (Consumer, 4)) 5 ?self"
  have "case ?q of Returned r \<Rightarrow> True | _ \<Rightarrow> False" by code_simp
  then obtain a where a: "?q = Returned a" by (cases ?q) simp_all
  have "case ?w of Returned r \<Rightarrow> True | _ \<Rightarrow> False" by code_simp
  then obtain b where b: "?w = Returned b" by (cases ?w) simp_all
  from max_queue_size_within_capacity [of ?self 2 0 _ 5 a 0 _ 5 b] a b
  show ?thesis by simp
qed

text \<open>
  C4, as amended. At every reachable state during a run of the wait/notify
  implementation, \<open>0 \<le> items_produced - items_consumed \<le> capacity\<close>. In the
  queue-based implementation the counters are updated after \<open>put\<close> and \<open>get\<close> have
  returned, outside any lock, and \<open>-1 \<le> items_produced - items_consumed \<le> capacity + 1\<close>
  at every reachable state. Once both threads have returned,
  \<open>items_produced = items_consumed = item_count\<close> in both implementations.
\<close>

theorem counter_balance_bounds:
  assumes "0 < capacity self" and "shared_queue self = []"
  shows "(wn_during item_count t0 evs self = Some s \<longrightarrow>
            0 \<le> wn_balance s \<and> wn_balance s \<le> capacity self)
       \<and> (q_during item_count t0' evs' self = Some s' \<longrightarrow>
            - 1 \<le> q_balance s' \<and> q_balance s' \<le> capacity self + 1)
       \<and> (wn_run item_count t0 evs2 t1 self = Returned r \<longrightarrow>
            items_produced (stats r) = item_count \<and> items_consumed (stats r) = item_count)
       \<and> (q_run item_count t0' evs2' t1' self = Returned r' \<longrightarrow>
            items_produced (stats r') = item_count \<and> items_consumed (stats r') = item_count)"
proof (intro conjI impI)
  assume d: "wn_during item_count t0 evs self = Some s"
  from wn_during_inv [OF assms d] wn_balance_bounds [of s]
  show "0 \<le> wn_balance s" and "wn_balance s \<le> capacity self" by simp_all
next
  assume d: "q_during item_count t0' evs' self = Some s'"
  from q_during_inv [OF assms d] q_balance_bounds [of s']
  show "- 1 \<le> q_balance s'" and "q_balance s' \<le> capacity self + 1" by simp_all
next
  assume r: "wn_run item_count t0 evs2 t1 self = Returned r"
  from wn_run_returned [OF assms r]
  show "items_produced (stats r) = item_count" and "items_consumed (stats r) = item_count"
    by simp_all
next
  assume r: "q_run item_count t0' evs2' t1' self = Returned r'"
  from q_run_returned [OF assms r]
  show "items_produced (stats r') = item_count" and "items_consumed (stats r') = item_count"
    by simp_all
qed

theorem counter_balance_bounds_witness:
  "(case wn_during 2 0 (replicate 8 (Producer, 1))
           \<lparr>shared_queue = [], source_container = [], destination_container = [],
            capacity = 1, stats = Statistics_new, producer_finished = False\<rparr> of
      Some s \<Rightarrow> 0 \<le> wn_balance s \<and> wn_balance s \<le> 1 | None \<Rightarrow> False)
   \<and> (case q_during 2 0 (replicate 8 (Producer, 1) @ replicate 3 (Consumer, 2)
                    @ replicate 5 (Producer, 3))
           \<lparr>shared_queue = [], source_container = [], destination_container = [],
            capacity = 1, stats = Statistics_new, producer_finished = False\<rparr> of
      Some s \<Rightarrow> - 1 \<le> q_balance s \<and> q_balance s \<le> 2 | None \<Rightarrow> False)
   \<and> (case wn_run 2 0 (replicate 13 (Producer, 1) @ replicate 12 (Consumer, 2)
                    @ replicate 13 (Producer, 3) @ replicate 12 (Consumer, 4)) 5
           \<lparr>shared_queue = [], source_container = [], destination_container = [],
            capacity = 1, stats = Statistics_new, producer_finished = False\<rparr> of
      Returned r \<Rightarrow> items_produced (stats r) = 2 \<and> items_consumed (stats r) = 2
    | _ \<Rightarrow> False)
   \<and> (case q_run 2 0 (replicate 8 (Producer, 1) @ replicate 8 (Consumer, 2)
                    @ replicate 6 (Producer, 3) @ replicate 6 (Consumer, 4)) 5
           \<lparr>shared_queue = [], source_container = [], destination_container = [],
            capacity = 1, stats = Statistics_new, producer_finished = False\<rparr> of
      Returned r \<Rightarrow> items_produced (stats r) = 2 \<and> items_consumed (stats r) = 2
    | _ \<Rightarrow> False)"
proof -
  let ?self = "\<lparr>shared_queue = [], source_container = [], destination_container = [],
            capacity = 1, stats = Statistics_new, producer_finished = False\<rparr>"
  let ?wd = "wn_during 2 0 (replicate 8 (Producer, 1)) ?self"
  let ?qd = "q_during 2 0 (replicate 8 (Producer, 1) @ replicate 3 (Consumer, 2)
                    @ replicate 5 (Producer, 3)) ?self"
  let ?q = "q_run 2 0 (replicate 8 (Producer, 1) @ replicate 8 (Consumer, 2)
                    @ replicate 6 (Producer, 3) @ replicate 6 (Consumer, 4)) 5 ?self"
  let ?w = "wn_run 2 0 (replicate 13 (Producer, 1) @ replicate 12 (Consumer, 2)
                    @ replicate 13 (Producer, 3) @ replicate 12 (Consumer, 4)) 5 ?self"
  have "?wd \<noteq> None" by code_simp
  then obtain s where s: "?wd = Some s" by blast
  have "?qd \<noteq> None" by code_simp
  then obtain s' where s': "?qd = Some s'" by blast
  have "case ?q of Returned r \<Rightarrow> True | _ \<Rightarrow> False" by code_simp
  then obtain a where a: "?q = Returned a" by (cases ?q) simp_all
  have "case ?w of Returned r \<Rightarrow> True | _ \<Rightarrow> False" by code_simp
  then obtain b where b: "?w = Returned b" by (cases ?w) simp_all
  from counter_balance_bounds [of ?self 2 0 _ s 0 _ s' _ 5 b _ 5 a] s s' a b
  show ?thesis by simp
qed

text \<open>
  C4 as stated fails for the queue-based implementation. With capacity 1: after the
  producer has put item 1 and before it counts it, the consumer gets and counts the
  item (difference \<open>-1\<close>); and after the consumer has taken item 1 from the queue and
  before it counts it, the producer puts and counts item 2 (difference \<open>2\<close>).
\<close>

theorem counter_balance_counterexample:
  "map_option q_balance
     (q_during 1 0 (replicate 3 (Producer, 1) @ replicate 7 (Consumer, 2))
        \<lparr>shared_queue = [], source_container = [], destination_container = [],
         capacity = 1, stats = Statistics_new, producer_finished = False\<rparr>) = Some (- 1)
   \<and> map_option q_balance
     (q_during 2 0 (replicate 8 (Producer, 1) @ replicate 3 (Consumer, 2)
                    @ replicate 5 (Producer, 3))
        \<lparr>shared_queue = [], source_container = [], destination_container = [],
         capacity = 1, stats = Statistics_new, producer_finished = False\<rparr>) = Some 2"
  by code_simp

section \<open>Sentinel items\<close>

text \<open>
  C8. When the producer's loop reaches a sentinel (\<open>None\<close>) item of the source, its
  step goes on to the next item and changes nothing else: nothing is raised,
  \<open>items_produced\<close> and \<open>producer_wait_time\<close> stay as they are, nothing is put. When the
  consumer takes a sentinel from the queue, it returns to the head of its loop with
  \<open>consumed\<close> as it was: \<open>items_consumed\<close> and the destination are unchanged (the
  queue-based consumer has added its wait-time sample; the wait/notify consumer has
  released the lock). Both implementations.
\<close>

theorem sentinel_skipped:
  "(q_prod s = QP_Loop i \<and> i < length (source_container (q_self s))
      \<and> source_container (q_self s) ! i = None \<longrightarrow>
        q_producer_step now s = Some (s\<lparr>q_prod := QP_Loop (Suc i)\<rparr>))
   \<and> (wn_prod w = WP_Loop i \<and> i < length (source_container (wn_self w))
      \<and> source_container (wn_self w) ! i = None \<longrightarrow>
        wn_producer_step now w = Some (w\<lparr>wn_prod := WP_Loop (Suc i)\<rparr>))
   \<and> (q_cons s = QC_Get consumed wait_start \<and> shared_queue (q_self s) = None # q \<longrightarrow>
        q_exec [(Consumer, t1), (Consumer, t2), (Consumer, t3)] s =
          Some (s\<lparr>q_self := (q_self s)
                     \<lparr>shared_queue := q,
                      stats := (stats (q_self s))
                        \<lparr>consumer_wait_time := consumer_wait_time (stats (q_self s))
                            + (t2 - wait_start) * 1000\<rparr>\<rparr>,
                   q_cons := QC_Loop consumed\<rparr>))
   \<and> (wn_cons w = WC_Pop consumed \<and> shared_queue (wn_self w) = None # q \<longrightarrow>
        wn_exec [(Consumer, t1), (Consumer, t2)] w =
          Some (w\<lparr>wn_self := (wn_self w)\<lparr>shared_queue := q\<rparr>,
                   wn_owner := None, wn_cons := WC_Loop consumed\<rparr>))"
  by (simp add: q_producer_step_def wn_producer_step_def q_step_def wn_step_def
        q_consumer_step_def wn_consumer_step_def)


theorem sentinel_skipped_witness:
  "(let obj = \<lparr>shared_queue = [None, Some 7], source_container = [None, Some 7],
               destination_container = [], capacity = 2, stats = Statistics_new,
               producer_finished = False\<rparr>;
        s = \<lparr>q_self = obj, q_total_items = 2, q_prod = QP_Loop 0, q_cons = QC_Get 0 5\<rparr>;
        w = \<lparr>wn_self = obj, wn_total_items = 2, wn_owner = Some Consumer,
             wn_prod = WP_Loop 0, wn_cons = WC_Pop 0\<rparr>
    in q_producer_step 1 s = Some (s\<lparr>q_prod := QP_Loop 1\<rparr>)
     \<and> wn_producer_step 1 w = Some (w\<lparr>wn_prod := WP_Loop 1\<rparr>)
     \<and> q_exec [(Consumer, 6), (Consumer, 8), (Consumer, 9)] s =
          Some (s\<lparr>q_self := obj\<lparr>shared_queue := [Some 7],
                                 stats := Statistics_new\<lparr>consumer_wait_time := 3000\<rparr>\<rparr>,
                   q_cons := QC_Loop 0\<rparr>)
     \<and> wn_exec [(Consumer, 6), (Consumer, 8)] w =
          Some (w\<lparr>wn_self := obj\<lparr>shared_queue := [Some 7]\<rparr>,
                   wn_owner := None, wn_cons := WC_Loop 0\<rparr>))"
proof -
  let ?obj = "\<lparr>shared_queue = [None, Some 7], source_container = [None, Some 7],
               destination_container = [], capacity = 2, stats = Statistics_new,
               producer_finished = False\<rparr>"
  let ?s = "\<lparr>q_self = ?obj, q_total_items = 2, q_prod = QP_Loop 0, q_cons = QC_Get 0 5\<rparr>"
  let ?w = "\<lparr>wn_self = ?obj, wn_total_items = 2, wn_owner = Some Consumer,
             wn_prod = WP_Loop 0, wn_cons = WC_Pop 0\<rparr>"
  from sentinel_skipped [of ?s 0 1 ?w 0 5 "[Some 7]" 6 8 9]
  show ?thesis by (simp add: Statistics_new_def)
qed

section \<open>The consumer when the producer has finished\<close>







end
